theory Spec2Isabelle
  imports Main "HOL-Library.Sublist"
begin

section \<open>JavaScript built-ins used by the sources\<close>

text \<open>
  A JavaScript string is modelled as a \<^typ>\<open>string\<close>, one \<^typ>\<open>char\<close> per code unit.
  The operations below are the ones the sources call; they work position by position,
  so nothing in them depends on what a code unit denotes.
\<close>

text \<open>
  \<open>xs.slice(start, end)\<close> and \<open>xs.slice(start)\<close>, for strings and arrays alike: a
  negative index counts from the end, and both indices are clamped to \<open>[0, length]\<close>.
\<close>

definition relIndex :: "nat \<Rightarrow> int \<Rightarrow> nat" where
  "relIndex len k = (if k < 0 then nat (max (int len + k) 0) else nat (min k (int len)))"

definition slice :: "'a list \<Rightarrow> int \<Rightarrow> int \<Rightarrow> 'a list" where
  "slice xs start end =
     (let from = relIndex (length xs) start; to = relIndex (length xs) end
      in take (to - from) (drop from xs))"

definition sliceFrom :: "'a list \<Rightarrow> int \<Rightarrow> 'a list" where
  "sliceFrom xs start = drop (relIndex (length xs) start) xs"

text \<open>
  \<open>s.split(sep)\<close> for a one-character separator: the pieces between the separators,
  empty pieces included; the empty string gives one empty piece. The result is never
  the empty array, so the first branch of the inner \<open>case\<close> is never taken.
\<close>

fun split :: "char \<Rightarrow> string \<Rightarrow> string list" where
  "split sep [] = [[]]"
| "split sep (c # cs) =
     (if c = sep then [] # split sep cs
      else (case split sep cs of
              [] \<Rightarrow> [[c]]
            | piece # pieces \<Rightarrow> (c # piece) # pieces))"

text \<open>\<open>s.includes(t)\<close>: \<open>t\<close> occurs in \<open>s\<close> at some position.\<close>

fun stringIncludes :: "string \<Rightarrow> string \<Rightarrow> bool" where
  "stringIncludes [] t = (t = [])"
| "stringIncludes (c # cs) t = (prefix t (c # cs) \<or> stringIncludes cs t)"

section \<open>src/unnamed/part_000: getPrefixSuffixOverlap\<close>

text \<open>
  The loop of \<open>getPrefixSuffixOverlap\<close>: \<open>i\<close> counts down from
  \<open>min(firstString.length, secondString.length)\<close> and stops at the first \<open>i\<close> with
  \<open>secondString.slice(0, i) === firstString.slice(-i)\<close>, or at \<open>0\<close>.
\<close>

function overlapLoop :: "string \<Rightarrow> string \<Rightarrow> nat \<Rightarrow> nat" where
  "overlapLoop firstString secondString i =
     (if i > 0 then
        (if slice secondString 0 (int i) = sliceFrom firstString (- int i) then i
         else overlapLoop firstString secondString (i - 1))
      else i)"
  by pat_completeness auto
termination
  by (relation "measure (\<lambda>(a, b, i). i)") auto

declare overlapLoop.simps [simp del]

definition getPrefixSuffixOverlap :: "string \<Rightarrow> string \<Rightarrow> string" where
  "getPrefixSuffixOverlap firstString secondString =
     (let i = overlapLoop firstString secondString
                (min (length firstString) (length secondString))
      in slice secondString 0 (int i))"

section \<open>shared/filesystemUtilities: getFileDistance\<close>

text \<open>
  The loop of \<open>getFileDistance\<close>: \<open>i\<close> advances while it is below both lengths and
  the two arrays agree at \<open>i\<close>.
\<close>

function distanceLoop :: "string list \<Rightarrow> string list \<Rightarrow> nat \<Rightarrow> nat" where
  "distanceLoop filePathA filePathB i =
     (if i < min (length filePathA) (length filePathB) then
        (if filePathA ! i \<noteq> filePathB ! i then i
         else distanceLoop filePathA filePathB (i + 1))
      else i)"
  by pat_completeness auto
termination
  by (relation "measure (\<lambda>(a, b, i). min (length a) (length b) - i)") auto

declare distanceLoop.simps [simp del]

text \<open>
  \<open>pathutils.normalize\<close> is imported from \<open>shared/utilities/pathUtils\<close>; the function
  takes it as the parameter \<open>normalize_path\<close>.
\<close>

definition dirSegments :: "(string \<Rightarrow> string) \<Rightarrow> string \<Rightarrow> string list" where
  "dirSegments normalize_path file =
     (let filePath = split CHR ''/'' (normalize_path file)
      in slice filePath 0 (int (length filePath) - 1))"

definition getFileDistance :: "(string \<Rightarrow> string) \<Rightarrow> string \<Rightarrow> string \<Rightarrow> nat" where
  "getFileDistance normalize_path fileA fileB =
     (let filePathA = dirSegments normalize_path fileA;
          filePathB = dirSegments normalize_path fileB;
          i = distanceLoop filePathA filePathB 0
      in length (sliceFrom filePathA (int i)) + length (sliceFrom filePathB (int i)))"

text \<open>
  Modelled from the spec: \<open>normalize\<close> and \<open>normalizeSeparator\<close> of
  \<open>shared/utilities/pathUtils\<close> are not among the sources. The spec calls their
  result the slash-normalized, slash-separated path: every backslash becomes a slash.
  The functions of this theory take the normalizer as a parameter; this definition is
  the instance used where a concrete path is evaluated.
\<close>

definition slashNormalize :: "string \<Rightarrow> string" where
  "slashNormalize p = map (\<lambda>c. if c = CHR 0x5C then CHR ''/'' else c) p"

section \<open>shared/filesystemUtilities: isInDirectory\<close>

text \<open>
  The loop that pops the final empty elements of \<open>parentDirPieces\<close>.
\<close>

function popEmpty :: "string list \<Rightarrow> string list" where
  "popEmpty parentDirPieces =
     (if length parentDirPieces > 0 \<and> parentDirPieces ! (length parentDirPieces - 1) = []
      then popEmpty (butlast parentDirPieces)
      else parentDirPieces)"
  by pat_completeness auto
termination
  by (relation "measure length") auto

declare popEmpty.simps [simp del]

text \<open>
  \<open>isInDirectory\<close>. The parameters are \<open>pathutils.normalizeSeparator\<close>, the value of
  \<open>os.platform() === 'win32'\<close> and \<open>String.prototype.toLowerCase\<close>. The test of the
  lengths comes before the loop that pops, as in the source. \<open>every\<close> reads
  \<open>containedPathPieces[index]\<close> at the indices of the popped \<open>parentDirPieces\<close>, which
  are in range after the test of the lengths.
\<close>

definition isInDirectory ::
  "(string \<Rightarrow> string) \<Rightarrow> bool \<Rightarrow> (string \<Rightarrow> string) \<Rightarrow> string \<Rightarrow> string \<Rightarrow> bool" where
  "isInDirectory normalizeSeparator caseInsensitive toLowerCase d p =
     (if d = [] \<or> p = [] then True
      else
        let parentDirPieces = split CHR ''/'' (normalizeSeparator d);
            containedPathPieces = split CHR ''/'' (normalizeSeparator p)
        in if length parentDirPieces > length containedPathPieces then False
           else
             let parentDirPieces = popEmpty parentDirPieces
             in list_all
                  (\<lambda>index.
                     if caseInsensitive
                     then toLowerCase (parentDirPieces ! index) = toLowerCase (containedPathPieces ! index)
                     else parentDirPieces ! index = containedPathPieces ! index)
                  [0 ..< length parentDirPieces])"

section \<open>shared/filesystemUtilities: getNonexistentFilename\<close>

datatype error = Error string | TypeError | RangeError

text \<open>The decimal digits of a natural number, as the template literal prints \<open>i\<close>.\<close>

fun decimal :: "nat \<Rightarrow> string" where
  "decimal n =
     (if n < 10 then [char_of (48 + n)]
      else decimal (n div 10) @ [char_of (48 + n mod 10)])"

declare decimal.simps [simp del]

text \<open>
  The file system as the function sees it: \<open>fs.existsDir\<close> and \<open>fs.exists\<close>.
\<close>

record fs =
  existsDir :: "string \<Rightarrow> bool"
  exists :: "string \<Rightarrow> bool"

text \<open>
  \<open>crypto.randomBytes(n).toString('hex')\<close>. The generator is the parameter
  \<open>randomByte\<close>: \<open>randomByte i j\<close> is the byte at position \<open>j\<close> of the buffer drawn
  at attempt \<open>i\<close>, a number taken modulo 256. \<open>toString('hex')\<close> writes each byte as
  two lowercase hexadecimal digits.
\<close>

definition randomBytes :: "(nat \<Rightarrow> nat \<Rightarrow> nat) \<Rightarrow> nat \<Rightarrow> nat \<Rightarrow> nat list" where
  "randomBytes randomByte i n = map (\<lambda>j. randomByte i j mod 256) [0 ..< n]"

definition hexDigit :: "nat \<Rightarrow> char" where
  "hexDigit n = ''0123456789abcdef'' ! n"

definition toHex :: "nat list \<Rightarrow> string" where
  "toHex bytes = concat (map (\<lambda>b. [hexDigit (b div 16), hexDigit (b mod 16)]) bytes)"

text \<open>
  The name generated at attempt \<open>i\<close>. The parameters \<open>suffix\<close> and \<open>max\<close> of the
  source are \<open>suffix'\<close> and \<open>max'\<close> here. \<open>max\<close> is an integer.
\<close>

definition filenameAt :: "(nat \<Rightarrow> nat \<Rightarrow> nat) \<Rightarrow> string \<Rightarrow> string \<Rightarrow> int \<Rightarrow> nat \<Rightarrow> string" where
  "filenameAt randomByte name suffix' max' i =
     (if i = 0 then name @ suffix'
      else name @ ''-'' @
           (if int i < max' then decimal i else toHex (randomBytes randomByte i 4)) @ suffix')"

text \<open>
  The \<open>for\<close> loop from attempt \<open>i\<close> on. The result is the returned filename and the
  paths given to \<open>fs.exists\<close>, in the order of the calls. \<open>join\<close> is \<open>path.join\<close>.
  In \<open>!(await fs.exists(fullpath)) || i >= max + 99\<close> the call of \<open>fs.exists\<close>
  comes first, so it is made at every attempt.
\<close>

function probe ::
  "fs \<Rightarrow> (string \<Rightarrow> string \<Rightarrow> string) \<Rightarrow> (nat \<Rightarrow> nat \<Rightarrow> nat) \<Rightarrow>
   string \<Rightarrow> string \<Rightarrow> string \<Rightarrow> int \<Rightarrow> nat \<Rightarrow> string \<times> string list" where
  "probe files join randomByte dir name suffix' max' i =
     (let filename = filenameAt randomByte name suffix' max' i;
          fullpath = join dir filename
      in if \<not> exists files fullpath \<or> int i \<ge> max' + 99 then (filename, [fullpath])
         else (case probe files join randomByte dir name suffix' max' (i + 1) of
                 (result, probed) \<Rightarrow> (result, fullpath # probed)))"
  by pat_completeness auto
termination
  by (relation "measure (\<lambda>(files, join, randomByte, dir, name, suffix', max', i). nat (max' + 99 - int i))") auto

declare probe.simps [simp del]

text \<open>
  \<open>getNonexistentFilename\<close>. \<open>max\<close> is optional and defaults to 99. A thrown
  \<open>Error\<close> is the left summand. The file system does not change during the call.
\<close>

definition maxOrDefault :: "int option \<Rightarrow> int" where
  "maxOrDefault maxArg = (case maxArg of None \<Rightarrow> 99 | Some m \<Rightarrow> m)"

definition getNonexistentFilename ::
  "fs \<Rightarrow> (string \<Rightarrow> string \<Rightarrow> string) \<Rightarrow> (nat \<Rightarrow> nat \<Rightarrow> nat) \<Rightarrow>
   string \<Rightarrow> string \<Rightarrow> string \<Rightarrow> int option \<Rightarrow> error + string \<times> string list" where
  "getNonexistentFilename files join randomByte dir name suffix' maxArg =
     (let max' = maxOrDefault maxArg
      in if name = [] then Inl (Error ''name is empty'')
         else if \<not> existsDir files dir then Inl (Error (''directory does not exist: '' @ dir))
         else Inr (probe files join randomByte dir name suffix' max' 0))"

text \<open>The number of calls of \<open>fs.exists\<close> that a call made.\<close>

definition probeCount :: "error + string \<times> string list \<Rightarrow> nat" where
  "probeCount r = (case r of Inl e \<Rightarrow> 0 | Inr (filename, probed) \<Rightarrow> length probed)"

text \<open>
  For evaluating examples: a file system where every path exists, one where only the
  directory \<open>dir\<close> and the file \<open>dir/foo.txt\<close> exist, a \<open>path.join\<close> for plain
  names and a generator that draws the bytes \<open>0a 1b 2c 3d\<close> each time.
\<close>

definition everythingExists :: fs where
  "everythingExists = \<lparr>existsDir = (\<lambda>d. True), exists = (\<lambda>p. True)\<rparr>"

definition onlyFooTxt :: fs where
  "onlyFooTxt = \<lparr>existsDir = (\<lambda>d. d = ''dir''), exists = (\<lambda>p. p = ''dir/foo.txt'')\<rparr>"

definition joinWithSlash :: "string \<Rightarrow> string \<Rightarrow> string" where
  "joinWithSlash dir filename = dir @ ''/'' @ filename"

definition fixedByte :: "nat \<Rightarrow> nat \<Rightarrow> nat" where
  "fixedByte i j = [10, 27, 44, 61] ! j"

section \<open>codewhisperer/util/supplementalContext/codeParsingUtil\<close>

subsection \<open>countSubstringMatches\<close>

text \<open>
  The two nested \<open>for\<close> loops, each a fold that threads \<open>count\<close>.
  \<open>toLowerCase\<close> is \<open>String.prototype.toLowerCase\<close>.
\<close>

definition countSubstringMatches :: "(string \<Rightarrow> string) \<Rightarrow> string list \<Rightarrow> string list \<Rightarrow> nat" where
  "countSubstringMatches toLowerCase arr1 arr2 =
     fold (\<lambda>str1 count.
             fold (\<lambda>str2 count.
                     if stringIncludes (toLowerCase str2) (toLowerCase str1) then count + 1
                     else count)
                  arr2 count)
          arr1 0"

text \<open>
  \<open>toLowerCase\<close> on ASCII letters, for evaluating examples.
\<close>

definition asciiToLowerCase :: "string \<Rightarrow> string" where
  "asciiToLowerCase s =
     map (\<lambda>c. let n = (of_char c :: nat) in if 65 \<le> n \<and> n \<le> 90 then char_of (n + 32) else c) s"

subsection \<open>The test-filename patterns\<close>

text \<open>
  The regular expressions of \<open>testFilenamePattern\<close> are sequences of five kinds of
  item: \<open>^\<close>, \<open>$\<close>, literal text, the group \<open>(.+)\<close> and a group of literal
  alternatives such as \<open>(\.ts|\.tsx)\<close>. None has a flag. \<open>atomEnds a s i\<close> lists the
  positions where a match of the item \<open>a\<close> that starts at position \<open>i\<close> of \<open>s\<close> can
  end; \<open>.\<close> matches any character but a line terminator (line feed and carriage
  return; the other two line terminators of JavaScript, U+2028 and U+2029, are not
  values of \<^typ>\<open>char\<close>). \<open>test\<close> asks only whether some match exists, so the order
  in which the engine tries the alternatives does not matter.
\<close>

datatype atom = Caret | Dollar | Lit string | AnyPlus | OneOf "string list"

definition lineTerminator :: "char \<Rightarrow> bool" where
  "lineTerminator c = (c = CHR 0x0A \<or> c = CHR 0x0D)"

fun atomEnds :: "atom \<Rightarrow> string \<Rightarrow> nat \<Rightarrow> nat list" where
  "atomEnds Caret s i = (if i = 0 then [i] else [])"
| "atomEnds Dollar s i = (if i = length s then [i] else [])"
| "atomEnds (Lit l) s i = (if take (length l) (drop i s) = l then [i + length l] else [])"
| "atomEnds AnyPlus s i =
     map (\<lambda>n. i + n) [1 ..< Suc (length (takeWhile (\<lambda>c. \<not> lineTerminator c) (drop i s)))]"
| "atomEnds (OneOf ls) s i =
     map (\<lambda>l. i + length l) (filter (\<lambda>l. take (length l) (drop i s) = l) ls)"

fun matchesFrom :: "atom list \<Rightarrow> string \<Rightarrow> nat \<Rightarrow> bool" where
  "matchesFrom [] s i = True"
| "matchesFrom (a # as) s i = list_ex (matchesFrom as s) (atomEnds a s i)"

text \<open>\<open>pattern.test(s)\<close>: the pattern matches at some start position of \<open>s\<close>.\<close>

definition test :: "atom list \<Rightarrow> string \<Rightarrow> bool" where
  "test pattern s = list_ex (matchesFrom pattern s) [0 ..< Suc (length s)]"

subsection \<open>utgLanguageConfigs\<close>

text \<open>
  The fields of \<open>utgLanguageConfig\<close> that \<open>isTestFile\<close> reads. The three optional
  extraction patterns are arguments of \<open>extractFunctions\<close> and \<open>extractClasses\<close>
  only, where a pattern is a parameter.
\<close>

record utgLanguageConfig =
  extension :: string
  testFilenamePattern :: "atom list list"

definition tsPatterns :: "atom list list" where
  "tsPatterns =
     [[Caret, AnyPlus, Lit ''.test'', OneOf [''.ts'', ''.tsx''], Dollar],
      [Caret, AnyPlus, Lit ''.spec'', OneOf [''.ts'', ''.tsx''], Dollar]]"

definition jsPatterns :: "atom list list" where
  "jsPatterns =
     [[Caret, AnyPlus, Lit ''.test'', OneOf [''.js'', ''.jsx''], Dollar],
      [Caret, AnyPlus, Lit ''.spec'', OneOf [''.js'', ''.jsx''], Dollar]]"

definition utgLanguageConfigs :: "(string \<times> utgLanguageConfig) list" where
  "utgLanguageConfigs =
     [(''java'',
         \<lparr>extension = ''.java'',
          testFilenamePattern =
            [[Caret, AnyPlus, Lit ''Test'', OneOf [''.java''], Dollar],
             [AnyPlus, Lit ''Tests'', OneOf [''.java''], Dollar],
             [Lit ''Test'', AnyPlus, OneOf [''.java''], Dollar]]\<rparr>),
      (''python'',
         \<lparr>extension = ''.py'',
          testFilenamePattern =
            [[Caret, Lit ''test_'', AnyPlus, OneOf [''.py''], Dollar],
             [Caret, AnyPlus, Lit ''_test'', OneOf [''.py''], Dollar]]\<rparr>),
      (''typescript'', \<lparr>extension = ''.ts'', testFilenamePattern = tsPatterns\<rparr>),
      (''javascript'', \<lparr>extension = ''.js'', testFilenamePattern = jsPatterns\<rparr>),
      (''typescriptreact'', \<lparr>extension = ''.tsx'', testFilenamePattern = tsPatterns\<rparr>),
      (''javascriptreact'', \<lparr>extension = ''.jsx'', testFilenamePattern = jsPatterns\<rparr>)]"

text \<open>
  \<open>utgLanguageConfigs\<close> is an object literal, so \<open>utgLanguageConfigs[language]\<close> is
  a property read: an own property gives its value, and any other key is looked up in
  \<open>Object.prototype\<close>, whose properties are functions or objects, none of them
  falsy. A key found nowhere gives \<open>undefined\<close>.
\<close>

datatype 'a property = Own 'a | Inherited | Undefined

definition objectPrototypeKeys :: "string list" where
  "objectPrototypeKeys =
     [''constructor'', ''hasOwnProperty'', ''isPrototypeOf'', ''propertyIsEnumerable'',
      ''toLocaleString'', ''toString'', ''valueOf'', ''__proto__'',
      ''__defineGetter__'', ''__defineSetter__'', ''__lookupGetter__'', ''__lookupSetter__'']"

definition getProperty :: "(string \<times> 'a) list \<Rightarrow> string \<Rightarrow> 'a property" where
  "getProperty object key =
     (case map_of object key of
        Some v \<Rightarrow> Own v
      | None \<Rightarrow> if key \<in> set objectPrototypeKeys then Inherited else Undefined)"

subsection \<open>extractFunctions\<close>

text \<open>
  A \<open>RegExp\<close> object, as far as \<open>exec\<close> reads and writes it: the matcher of the
  pattern, the \<open>global\<close> and \<open>sticky\<close> flags and \<open>lastIndex\<close>.
  \<open>matcher regex S i\<close> is the result of matching the pattern against \<open>S\<close> at the
  start position \<open>i\<close>: \<open>None\<close> for a failure, and for a success the end position
  and the first capture group (\<open>None\<close> where \<open>match[1]\<close> is \<open>undefined\<close>). The
  other flags change the matcher only; with the \<open>u\<close> or \<open>v\<close> flag the start position
  advances over a surrogate pair in one step, and a \<^typ>\<open>char\<close> is never half of one.
\<close>

record RegExp =
  matcher :: "string \<Rightarrow> nat \<Rightarrow> (nat \<times> string option) option"
  global :: bool
  sticky :: bool
  lastIndex :: nat

text \<open>
  The search of \<open>RegExp.prototype.exec\<close> from the start position \<open>i\<close>: past the
  length of \<open>S\<close> it fails; after a failure of the matcher it fails when the regex is
  sticky, and goes on at \<open>i + 1\<close> otherwise. A success gives the start position, the
  end position and the first capture group.
\<close>

function search ::
  "bool \<Rightarrow> (string \<Rightarrow> nat \<Rightarrow> (nat \<times> string option) option) \<Rightarrow> string \<Rightarrow> nat \<Rightarrow>
   (nat \<times> nat \<times> string option) option" where
  "search isSticky m S i =
     (if i > length S then None
      else (case m S i of
              None \<Rightarrow> if isSticky then None else search isSticky m S (i + 1)
            | Some (e, group1) \<Rightarrow> Some (i, e, group1)))"
  by pat_completeness auto
termination
  by (relation "measure (\<lambda>(isSticky, m, S, i). Suc (length S) - i)") auto

declare search.simps [simp del]

text \<open>
  \<open>regex.exec(S)\<close>: the match or \<open>null\<close>, and the regex with its \<open>lastIndex\<close>
  updated. With neither the \<open>global\<close> nor the \<open>sticky\<close> flag the search starts at 0
  and \<open>lastIndex\<close> is left alone; with one of them, the search starts at
  \<open>lastIndex\<close>, which becomes the end of the match, or 0 after a failure.
\<close>

definition exec :: "RegExp \<Rightarrow> string \<Rightarrow> (nat \<times> nat \<times> string option) option \<times> RegExp" where
  "exec regex S =
     (case search (sticky regex) (matcher regex) S
             (if global regex \<or> sticky regex then lastIndex regex else 0) of
        None \<Rightarrow>
          (None, if global regex \<or> sticky regex then regex\<lparr>lastIndex := 0\<rparr> else regex)
      | Some (index, e, group1) \<Rightarrow>
          (Some (index, e, group1),
           if global regex \<or> sticky regex then regex\<lparr>lastIndex := e\<rparr> else regex))"

text \<open>
  An array holds a bounded number of elements: \<open>functionNames.push\<close> throws a
  \<open>RangeError\<close> when the array is full. By the language definition an array has at
  most \<open>2^32 - 1\<close> elements; an engine may refuse earlier. The bound is the parameter
  \<open>arrayLimit\<close> of the loop.
\<close>

definition maxArrayLength :: nat where
  "maxArrayLength = 2 ^ 32 - 1"

text \<open>
  The \<open>while\<close> loop of \<open>extractFunctions\<close>: \<open>exec\<close> is called first, and each turn
  pushes \<open>match[1]\<close>. Every turn makes the array longer, so the loop ends: with the
  array, when \<open>exec\<close> returns \<open>null\<close>, or with the \<open>RangeError\<close> of \<open>push\<close>.
\<close>

function extractLoop ::
  "nat \<Rightarrow> RegExp \<Rightarrow> string \<Rightarrow> string option list \<Rightarrow> error + string option list \<times> RegExp" where
  "extractLoop arrayLimit regex fileContent functionNames =
     (case exec regex fileContent of
        (None, regex') \<Rightarrow> Inr (functionNames, regex')
      | (Some (index, e, group1), regex') \<Rightarrow>
          if arrayLimit \<le> length functionNames then Inl RangeError
          else extractLoop arrayLimit regex' fileContent (functionNames @ [group1]))"
  by pat_completeness auto
termination
  by (relation "measure (\<lambda>(arrayLimit, regex, fileContent, functionNames).
                           arrayLimit - length functionNames)") auto

declare extractLoop.simps [simp del]

definition extractFunctions :: "nat \<Rightarrow> string \<Rightarrow> RegExp option \<Rightarrow> error + string option list" where
  "extractFunctions arrayLimit fileContent regexArg =
     (case regexArg of
        None \<Rightarrow> Inr []
      | Some regex \<Rightarrow>
          (case extractLoop arrayLimit regex fileContent [] of
             Inl e \<Rightarrow> Inl e
           | Inr (functionNames, regex') \<Rightarrow> Inr functionNames))"

text \<open>
  The matches of a pattern in a text, as the spec words them: \<open>scan m S k ms\<close> holds
  when \<open>ms\<close> lists, in the order of occurrence, every match found from position \<open>k\<close>
  on, each one the first match that starts at or after the end of the one before
  (so no two overlap), and no match starts after the end of the last.
\<close>

fun scan ::
  "(string \<Rightarrow> nat \<Rightarrow> (nat \<times> string option) option) \<Rightarrow> string \<Rightarrow> nat \<Rightarrow>
   (nat \<times> nat \<times> string option) list \<Rightarrow> bool" where
  "scan m S k [] = list_all (\<lambda>j. m S j = None) [k ..< Suc (length S)]"
| "scan m S k ((index, e, group1) # ms) =
     (k \<le> index \<and> index \<le> length S \<and> list_all (\<lambda>j. m S j = None) [k ..< index] \<and>
      m S index = Some (e, group1) \<and> scan m S e ms)"

text \<open>
  The matcher of the pattern \<open>(a)\<close>, one letter \<open>a\<close> in a capture group, and the
  regex with that pattern, with or without the \<open>g\<close> flag and without the \<open>y\<close> flag,
  for evaluating examples.
\<close>

definition matchA :: "string \<Rightarrow> nat \<Rightarrow> (nat \<times> string option) option" where
  "matchA S i = (if i < length S \<and> S ! i = CHR ''a'' then Some (i + 1, Some ''a'') else None)"

definition regexA :: "bool \<Rightarrow> RegExp" where
  "regexA g = \<lparr>matcher = matchA, global = g, sticky = False, lastIndex = 0\<rparr>"

subsection \<open>isTestFile\<close>

text \<open>
  \<open>path.basename\<close> of the POSIX flavour, with no suffix argument: trailing slashes
  are dropped, and the result is what follows the last remaining slash. The functions
  below take \<open>path.basename\<close> as a parameter; this is the instance used where a concrete
  path is evaluated.
\<close>

definition posixBasename :: "string \<Rightarrow> string" where
  "posixBasename p =
     rev (takeWhile (\<lambda>c. c \<noteq> CHR ''/'') (dropWhile (\<lambda>c. c = CHR ''/'') (rev p)))"

text \<open>
  \<open>isTestFileByName\<close>. With no own property and an inherited one, \<open>languageConfig\<close>
  is truthy, \<open>languageConfig.testFilenamePattern\<close> is \<open>undefined\<close>, and the
  \<open>for ... of\<close> over it throws a \<open>TypeError\<close>.
\<close>

fun anyPatternTests :: "atom list list \<Rightarrow> string \<Rightarrow> bool" where
  "anyPatternTests [] filename = False"
| "anyPatternTests (pattern # rest) filename =
     (if test pattern filename then True else anyPatternTests rest filename)"

definition isTestFileByName :: "(string \<Rightarrow> string) \<Rightarrow> string \<Rightarrow> string \<Rightarrow> error + bool" where
  "isTestFileByName basename filePath language =
     (case getProperty utgLanguageConfigs language of
        Undefined \<Rightarrow> Inr False
      | Inherited \<Rightarrow> Inl TypeError
      | Own languageConfig \<Rightarrow>
          Inr (anyPatternTests (testFilenamePattern languageConfig) (basename filePath)))"

record languageConfigArg =
  languageId :: string
  fileContent :: "string option"

definition pathContainsTest :: "string \<Rightarrow> bool" where
  "pathContainsTest normalizedFilePath =
     (stringIncludes normalizedFilePath ''tests/'' \<or>
      stringIncludes normalizedFilePath ''test/'' \<or>
      stringIncludes normalizedFilePath ''tst/'')"

text \<open>
  \<open>isTestFile\<close> is \<open>async\<close>: an exception thrown in its body rejects the promise
  (the left summand). Both heuristics are computed before the \<open>if\<close>.
\<close>

definition isTestFile ::
  "(string \<Rightarrow> string) \<Rightarrow> (string \<Rightarrow> string) \<Rightarrow> string \<Rightarrow> languageConfigArg \<Rightarrow> error + bool" where
  "isTestFile normalize_path basename filePath languageConfig =
     (let normalizedFilePath = normalize_path filePath;
          pathContainsTest = pathContainsTest normalizedFilePath
      in case isTestFileByName basename normalizedFilePath (languageId languageConfig) of
           Inl e \<Rightarrow> Inl e
         | Inr fileNameMatchTestPatterns \<Rightarrow>
             if pathContainsTest \<or> fileNameMatchTestPatterns then Inr True else Inr False)"

section \<open>Properties of the built-ins\<close>

lemma slice_0_nat: "slice xs 0 (int i) = take i xs"
  by (simp add: slice_def relIndex_def min_def)

lemma sliceFrom_neg: "0 < i \<Longrightarrow> sliceFrom xs (- int i) = drop (length xs - i) xs"
  by (auto simp: sliceFrom_def relIndex_def max_def nat_diff_distrib' intro: arg_cong2 [where f = drop])

lemma sliceFrom_nat: "sliceFrom xs (int i) = drop i xs"
  by (simp add: sliceFrom_def relIndex_def min_def)

lemma split_not_Nil [simp]: "split sep s \<noteq> []"
  by (induction s) (auto split: list.splits)

lemma split_Cons:
  "split sep (c # cs) =
     (if c = sep then [] # split sep cs
      else (c # hd (split sep cs)) # tl (split sep cs))"
  using split_not_Nil [of sep cs] by (cases "split sep cs") auto

declare split.simps(2) [simp del]
declare split_Cons [simp]

lemma slice_butlast: "slice xs 0 (int (length xs) - 1) = butlast xs"
  by (cases "xs = []") (auto simp: slice_def relIndex_def butlast_conv_take min_def nat_diff_distrib')

lemma stringIncludes_sublist: "stringIncludes s t \<longleftrightarrow> sublist t s"
  by (induction s) (auto simp: sublist_Cons_right)

section \<open>getPrefixSuffixOverlap returns the longest overlap\<close>

lemma overlapLoop_spec:
  "i \<le> length a \<Longrightarrow>
   overlapLoop a b i \<le> i \<and>
   take (overlapLoop a b i) b = drop (length a - overlapLoop a b i) a \<and>
   (\<forall>j. overlapLoop a b i < j \<and> j \<le> i \<longrightarrow> take j b \<noteq> drop (length a - j) a)"
proof (induction a b i rule: overlapLoop.induct)
  case (1 a b i)
  show ?case
  proof (cases "i > 0")
    case False
    then show ?thesis by (auto simp: overlapLoop.simps [of a b 0])
  next
    case True
    show ?thesis
    proof (cases "slice b 0 (int i) = sliceFrom a (- int i)")
      case eq: True
      with True have "overlapLoop a b i = i" by (simp add: overlapLoop.simps [of a b i])
      with eq True show ?thesis by (auto simp: slice_0_nat sliceFrom_neg)
    next
      case ne: False
      with True have r: "overlapLoop a b i = overlapLoop a b (i - 1)"
        by (simp add: overlapLoop.simps [of a b i])
      from "1.IH" [OF True ne] "1.prems" have IH:
        "overlapLoop a b (i - 1) \<le> i - 1"
        "take (overlapLoop a b (i - 1)) b = drop (length a - overlapLoop a b (i - 1)) a"
        "\<forall>j. overlapLoop a b (i - 1) < j \<and> j \<le> i - 1 \<longrightarrow> take j b \<noteq> drop (length a - j) a"
        by auto
      from ne True have nei: "take i b \<noteq> drop (length a - i) a"
        by (simp add: slice_0_nat sliceFrom_neg)
      have "\<forall>j. overlapLoop a b (i - 1) < j \<and> j \<le> i \<longrightarrow> take j b \<noteq> drop (length a - j) a"
      proof (intro allI impI)
        fix j assume j: "overlapLoop a b (i - 1) < j \<and> j \<le> i"
        show "take j b \<noteq> drop (length a - j) a"
        proof (cases "j = i")
          case True with nei show ?thesis by simp
        next
          case False with j IH(3) show ?thesis by auto
        qed
      qed
      with IH r show ?thesis by auto
    qed
  qed
qed

lemma suffix_prefix_take_drop:
  assumes "suffix s a" "prefix s b"
  shows "length s \<le> min (length a) (length b) \<and> take (length s) b = drop (length a - length s) a"
  using assms by (auto simp: suffix_def prefix_def)

lemma overlap_props:
  "suffix (getPrefixSuffixOverlap a b) a \<and> prefix (getPrefixSuffixOverlap a b) b \<and>
   (\<forall>s. suffix s a \<and> prefix s b \<longrightarrow> length s \<le> length (getPrefixSuffixOverlap a b))"
proof -
  define m where "m = min (length a) (length b)"
  define r where "r = overlapLoop a b m"
  have m: "m \<le> length a" "m \<le> length b" by (simp_all add: m_def)
  from overlapLoop_spec [OF m(1), of b] have
    r1: "r \<le> m" and r2: "take r b = drop (length a - r) a"
    and r3: "\<And>j. r < j \<Longrightarrow> j \<le> m \<Longrightarrow> take j b \<noteq> drop (length a - j) a"
    by (auto simp: r_def)
  have g: "getPrefixSuffixOverlap a b = take r b"
    by (simp add: getPrefixSuffixOverlap_def r_def m_def slice_0_nat Let_def)
  have "suffix (take r b) a" unfolding r2 by (rule suffix_drop)
  moreover have "prefix (take r b) b" by (rule take_is_prefix)
  moreover have "length s \<le> length (take r b)" if "suffix s a \<and> prefix s b" for s
  proof -
    from suffix_prefix_take_drop that have
      "length s \<le> m" "take (length s) b = drop (length a - length s) a"
      by (auto simp: m_def)
    with r3 [of "length s"] have "length s \<le> r" by (meson not_le)
    with r1 m show ?thesis by simp
  qed
  ultimately show ?thesis by (simp add: g)
qed

lemma overlap_self: "getPrefixSuffixOverlap s s = s"
proof -
  from overlap_props [of s s] have p: "prefix (getPrefixSuffixOverlap s s) s"
    and "length s \<le> length (getPrefixSuffixOverlap s s)" by auto
  then show ?thesis by (metis prefix_order.eq_iff prefix_length_prefix)
qed

lemma no_overlap_abc_xyz: "\<forall>s. suffix s ''abc'' \<and> prefix s ''xyz'' \<longrightarrow> s = []"
proof (intro allI impI)
  fix s :: string assume a: "suffix s ''abc'' \<and> prefix s ''xyz''"
  show "s = []"
  proof (cases s)
    case Nil then show ?thesis .
  next
    case (Cons c cs)
    with a have "c = CHR ''x''" by (simp add: prefix_def)
    moreover from a Cons have "c \<in> set ''abc''"
      by (metis list.set_intros(1) set_mono_suffix subsetD)
    ultimately show ?thesis by simp
  qed
qed

lemma getPrefixSuffixOverlap_doc_example:
  "getPrefixSuffixOverlap ''adwg31'' ''31ggrs'' = ''31''"
  by code_simp

text \<open>
  C5. For all strings \<open>a\<close> and \<open>b\<close>, \<open>getPrefixSuffixOverlap(a, b)\<close> is a suffix of
  \<open>a\<close> and a prefix of \<open>b\<close>, and no string that is both is longer; it is the empty
  string when the only such string is the empty one; and
  \<open>getPrefixSuffixOverlap(s, s) = s\<close> for every \<open>s\<close>.
\<close>

theorem getPrefixSuffixOverlap_longest:
  "suffix (getPrefixSuffixOverlap a b) a \<and>
   prefix (getPrefixSuffixOverlap a b) b \<and>
   (\<forall>s. suffix s a \<and> prefix s b \<longrightarrow> length s \<le> length (getPrefixSuffixOverlap a b)) \<and>
   ((\<forall>s. suffix s a \<and> prefix s b \<longrightarrow> s = []) \<longrightarrow> getPrefixSuffixOverlap a b = []) \<and>
   getPrefixSuffixOverlap c c = c"
  using overlap_props [of a b] overlap_self [of c] by blast

theorem getPrefixSuffixOverlap_longest_witness:
  "getPrefixSuffixOverlap ''abc'' ''xyz'' = [] \<and>
   suffix ''31'' ''adwg31'' \<and> prefix ''31'' ''31ggrs'' \<and>
   length ''31'' \<le> length (getPrefixSuffixOverlap ''adwg31'' ''31ggrs'') \<and>
   getPrefixSuffixOverlap ''adwg31'' ''adwg31'' = ''adwg31''"
proof -
  have s: "suffix ''31'' ''adwg31''" by code_simp
  have p: "prefix ''31'' ''31ggrs''" by simp
  from getPrefixSuffixOverlap_longest [of "''abc''" "''xyz''" "''adwg31''"] no_overlap_abc_xyz
  have 1: "getPrefixSuffixOverlap ''abc'' ''xyz'' = [] \<and>
           getPrefixSuffixOverlap ''adwg31'' ''adwg31'' = ''adwg31''" by blast
  from getPrefixSuffixOverlap_longest [of "''adwg31''" "''31ggrs''" "[]"] s p
  have 2: "length ''31'' \<le> length (getPrefixSuffixOverlap ''adwg31'' ''31ggrs'')" by blast
  from 1 2 s p show ?thesis by blast
qed

section \<open>getFileDistance and the longest common prefix\<close>

lemma distanceLoop_lcp:
  "i \<le> min (length A) (length B) \<Longrightarrow>
   distanceLoop A B i = i + length (longest_common_prefix (drop i A) (drop i B))"
proof (induction A B i rule: distanceLoop.induct)
  case (1 A B i)
  show ?case
  proof (cases "i < min (length A) (length B)")
    case False
    with "1.prems" have "i = length A \<or> i = length B" by auto
    with False show ?thesis by (auto simp: distanceLoop.simps [of A B i])
  next
    case True
    then have dA: "drop i A = A ! i # drop (Suc i) A" and dB: "drop i B = B ! i # drop (Suc i) B"
      by (simp_all add: Cons_nth_drop_Suc)
    show ?thesis
    proof (cases "A ! i \<noteq> B ! i")
      case ne: True
      with True show ?thesis by (simp add: distanceLoop.simps [of A B i] dA dB)
    next
      case eq: False
      from True have "i + 1 \<le> min (length A) (length B)" by simp
      from "1.IH" [OF True eq this] True eq show ?thesis
        by (simp add: distanceLoop.simps [of A B i] dA dB)
    qed
  qed
qed

lemma length_lcp_commute:
  "length (longest_common_prefix xs ys) = length (longest_common_prefix ys xs)"
  by (induction xs ys rule: longest_common_prefix.induct) auto

lemma length_lcp_le:
  "length (longest_common_prefix xs ys) \<le> length xs"
  "length (longest_common_prefix xs ys) \<le> length ys"
  by (simp_all add: prefix_length_le longest_common_prefix_prefix1 longest_common_prefix_prefix2)

lemma lcp_same [simp]: "longest_common_prefix xs xs = xs"
  by (induction xs) auto

lemma dirSegments_butlast: "dirSegments np x = butlast (split CHR ''/'' (np x))"
  by (simp add: dirSegments_def slice_butlast Let_def)

lemma getFileDistance_eq:
  "getFileDistance np x y =
     (length (dirSegments np x) - length (longest_common_prefix (dirSegments np x) (dirSegments np y)))
   + (length (dirSegments np y) - length (longest_common_prefix (dirSegments np x) (dirSegments np y)))"
  by (simp add: getFileDistance_def Let_def sliceFrom_nat distanceLoop_lcp)

lemma getFileDistance_doc_example:
  "getFileDistance slashNormalize ''A/B/C.java'' ''A/D.java'' = 1"
  by code_simp

text \<open>
  C4. Whatever \<open>pathutils.normalize\<close> computes: the directory segments of a path are
  the pieces of the normalized path between slashes, without the last piece (the
  filename); \<open>getFileDistance(x, y)\<close> is \<open>(lenX - c) + (lenY - c)\<close>, where \<open>lenX\<close> and
  \<open>lenY\<close> count the directory segments of \<open>x\<close> and \<open>y\<close> and \<open>c\<close> is the length of the
  longest common prefix of the two segment sequences (which is at most \<open>lenX\<close> and
  \<open>lenY\<close>); the distance is symmetric; and it is 0 for two files with the same
  directory segments.
\<close>

theorem getFileDistance_formula:
  "dirSegments np x = butlast (split CHR ''/'' (np x)) \<and>
   length (longest_common_prefix (dirSegments np x) (dirSegments np y)) \<le> length (dirSegments np x) \<and>
   length (longest_common_prefix (dirSegments np x) (dirSegments np y)) \<le> length (dirSegments np y) \<and>
   getFileDistance np x y =
     (length (dirSegments np x) - length (longest_common_prefix (dirSegments np x) (dirSegments np y)))
   + (length (dirSegments np y) - length (longest_common_prefix (dirSegments np x) (dirSegments np y))) \<and>
   getFileDistance np x y = getFileDistance np y x \<and>
   (dirSegments np x = dirSegments np y \<longrightarrow> getFileDistance np x y = 0)"
proof -
  have "getFileDistance np x y = getFileDistance np y x"
    by (simp add: getFileDistance_eq length_lcp_commute [of "dirSegments np x"])
  moreover have "dirSegments np x = dirSegments np y \<longrightarrow> getFileDistance np x y = 0"
    by (simp add: getFileDistance_eq)
  ultimately show ?thesis
    using getFileDistance_eq [of np x y] dirSegments_butlast [of np x]
      length_lcp_le [of "dirSegments np x" "dirSegments np y"]
    by blast
qed

theorem getFileDistance_formula_witness:
  "dirSegments slashNormalize ''A/B/C.java'' = dirSegments slashNormalize ''A/B/D.java'' \<and>
   getFileDistance slashNormalize ''A/B/C.java'' ''A/B/D.java'' = 0"
proof -
  have h: "dirSegments slashNormalize ''A/B/C.java'' = dirSegments slashNormalize ''A/B/D.java''"
    by code_simp
  with getFileDistance_formula [of slashNormalize "''A/B/C.java''" "''A/B/D.java''"]
  show ?thesis by blast
qed

section \<open>countSubstringMatches counts the matching pairs\<close>

lemma inner_fold_count:
  "fold (\<lambda>x count. if P x then count + 1 else count) xs (c::nat) = c + length (filter P xs)"
  by (induction xs arbitrary: c) auto

lemma outer_fold_count:
  "fold (\<lambda>x count. count + f x) xs (c::nat) = c + sum_list (map f xs)"
  by (induction xs arbitrary: c) auto

lemma countSubstringMatches_sum:
  "countSubstringMatches lc arr1 arr2 =
     sum_list (map (\<lambda>str1. length (filter (\<lambda>str2. sublist (lc str1) (lc str2)) arr2)) arr1)"
  by (simp add: countSubstringMatches_def inner_fold_count outer_fold_count stringIncludes_sublist)

lemma card_index_pairs:
  "card {(i, j). i < (m::nat) \<and> j < (n::nat) \<and> Q i j} = (\<Sum>i<m. card {j. j < n \<and> Q i j})"
proof -
  have "{(i, j). i < m \<and> j < n \<and> Q i j} = (SIGMA i:{..<m}. {j. j < n \<and> Q i j})"
    by auto
  moreover have "card (SIGMA i:{..<m}. {j. j < n \<and> Q i j}) = (\<Sum>i\<in>{..<m}. card {j. j < n \<and> Q i j})"
    by (rule card_SigmaI) auto
  ultimately show ?thesis by simp
qed

lemma countSubstringMatches_append:
  "countSubstringMatches lc (xs @ ys) hs =
     countSubstringMatches lc xs hs + countSubstringMatches lc ys hs"
  by (simp add: countSubstringMatches_sum)

lemma countSubstringMatches_spec_example:
  "countSubstringMatches asciiToLowerCase [''foo''] [''Foo.java'', ''bar.py''] = 1"
  by code_simp

text \<open>
  C6. Whatever \<open>toLowerCase\<close> computes: \<open>countSubstringMatches(needles, haystacks)\<close>
  is the number of pairs of a position \<open>i\<close> in \<open>needles\<close> and a position \<open>j\<close> in
  \<open>haystacks\<close> such that the lowercase form of \<open>needles[i]\<close> occurs in the lowercase
  form of \<open>haystacks[j]\<close> as a substring. Pairs are counted by position, so equal
  elements at different positions count separately.
\<close>

theorem countSubstringMatches_pairs:
  "countSubstringMatches toLowerCase needles haystacks =
     card {(i, j). i < length needles \<and> j < length haystacks \<and>
                   sublist (toLowerCase (needles ! i)) (toLowerCase (haystacks ! j))}"
proof -
  have "sum_list (map (\<lambda>str1. length (filter (\<lambda>str2. sublist (toLowerCase str1) (toLowerCase str2)) haystacks)) needles)
        = (\<Sum>i<length needles. length (filter (\<lambda>str2. sublist (toLowerCase (needles ! i)) (toLowerCase str2)) haystacks))"
    by (simp add: sum_list_sum_nth atLeast0LessThan)
  also have "\<dots> = (\<Sum>i<length needles. card {j. j < length haystacks \<and> sublist (toLowerCase (needles ! i)) (toLowerCase (haystacks ! j))})"
    by (simp add: length_filter_conv_card)
  finally show ?thesis
    by (simp add: countSubstringMatches_sum card_index_pairs)
qed

text \<open>
  C10. When the lowercase form of the empty string is the empty string:
  \<open>countSubstringMatches([""], hs)\<close> is the length of \<open>hs\<close>, and an empty string at
  any position of the needle list adds exactly the length of \<open>hs\<close> to the count.
\<close>

theorem countSubstringMatches_empty_needle:
  assumes "toLowerCase [] = []"
  shows "countSubstringMatches toLowerCase [[]] hs = length hs \<and>
         countSubstringMatches toLowerCase (ns1 @ [] # ns2) hs =
           countSubstringMatches toLowerCase (ns1 @ ns2) hs + length hs"
proof -
  have one: "countSubstringMatches toLowerCase [[]] hs = length hs"
    by (simp add: countSubstringMatches_sum assms)
  have "countSubstringMatches toLowerCase (ns1 @ [[]] @ ns2) hs =
        countSubstringMatches toLowerCase ns1 hs + (length hs + countSubstringMatches toLowerCase ns2 hs)"
    by (simp only: countSubstringMatches_append one)
  with one show ?thesis by (simp add: countSubstringMatches_append)
qed

theorem countSubstringMatches_empty_needle_witness:
  "asciiToLowerCase [] = [] \<and>
   countSubstringMatches asciiToLowerCase [[]] [''Foo.java'', ''bar.py''] = 2 \<and>
   countSubstringMatches asciiToLowerCase [''foo'', [], ''x''] [''Foo.java'', ''bar.py''] = 3"
proof -
  have h: "asciiToLowerCase [] = []" by (simp add: asciiToLowerCase_def)
  have "countSubstringMatches asciiToLowerCase ([''foo''] @ ''x'' # []) [''Foo.java'', ''bar.py''] = 1"
    by code_simp
  with countSubstringMatches_empty_needle
         [of asciiToLowerCase "[''Foo.java'', ''bar.py'']" "[''foo'']" "[''x'']"] h
  show ?thesis by simp
qed

section \<open>Path segments and the substring test\<close>

lemma split_append_sep: "split c (xs @ c # ys) = split c xs @ split c ys"
proof (induction xs)
  case Nil
  show ?case by simp
next
  case (Cons x xs)
  have ne: "split c xs \<noteq> []" by simp
  show ?case
  proof (cases "x = c")
    case True
    with Cons show ?thesis by simp
  next
    case False
    with Cons ne show ?thesis by (simp add: hd_append)
  qed
qed

lemma split_no_sep: "c \<notin> set t \<Longrightarrow> split c t = [t]"
  by (induction t) auto

lemma split_append_no_sep:
  "c \<notin> set t \<Longrightarrow> split c (xs @ t) = butlast (split c xs) @ [last (split c xs) @ t]"
proof (induction xs)
  case Nil
  then show ?case by (simp add: split_no_sep)
next
  case (Cons x xs)
  have ne: "split c xs \<noteq> []" by simp
  show ?case
  proof (cases "x = c")
    case True
    with Cons show ?thesis by simp
  next
    case False
    show ?thesis
    proof (cases "tl (split c xs) = []")
      case True
      with ne have s: "split c xs = [hd (split c xs)]" by (cases "split c xs") auto
      then have "butlast (split c xs) = []" "last (split c xs) = hd (split c xs)"
        by (metis butlast.simps(2), metis last.simps)
      with Cons False True show ?thesis by simp
    next
      case tl: False
      with ne have "butlast (split c xs) = hd (split c xs) # butlast (tl (split c xs))"
        "last (split c xs) = last (tl (split c xs))"
        by (cases "split c xs"; simp)+
      with Cons False tl show ?thesis by simp
    qed
  qed
qed

lemma split_hd_decompose:
  "tl (split c xs) \<noteq> [] \<Longrightarrow> \<exists>rest. xs = hd (split c xs) @ c # rest"
proof (induction xs)
  case Nil
  then show ?case by simp
next
  case (Cons x xs)
  show ?case
  proof (cases "x = c")
    case True
    then show ?thesis by simp
  next
    case False
    with Cons.prems have "tl (split c xs) \<noteq> []" by simp
    from Cons.IH [OF this] obtain rest where "xs = hd (split c xs) @ c # rest" ..
    then have "x # xs = (x # hd (split c xs)) @ c # rest" by simp
    with False show ?thesis by auto
  qed
qed

lemma split_segment_decompose:
  "seg \<in> set (butlast (split c s)) \<Longrightarrow> \<exists>pre post. s = pre @ seg @ c # post"
proof (induction s)
  case Nil
  then show ?case by simp
next
  case (Cons x xs)
  have ne: "split c xs \<noteq> []" by simp
  show ?case
  proof (cases "x = c")
    case True
    with Cons.prems ne have "seg = [] \<or> seg \<in> set (butlast (split c xs))" by auto
    then show ?thesis
    proof
      assume "seg = []"
      with True have "x # xs = [] @ seg @ c # xs" by simp
      then show ?thesis by blast
    next
      assume "seg \<in> set (butlast (split c xs))"
      from Cons.IH [OF this] obtain pre post where "xs = pre @ seg @ c # post" by blast
      then have "x # xs = (x # pre) @ seg @ c # post" by simp
      then show ?thesis by blast
    qed
  next
    case False
    show ?thesis
    proof (cases "tl (split c xs) = []")
      case True
      with False Cons.prems show ?thesis by simp
    next
      case tl: False
      with ne have bl: "butlast (split c xs) = hd (split c xs) # butlast (tl (split c xs))"
        by (cases "split c xs") auto
      from False tl Cons.prems have "seg = x # hd (split c xs) \<or> seg \<in> set (butlast (tl (split c xs)))"
        by auto
      then show ?thesis
      proof
        assume seg: "seg = x # hd (split c xs)"
        from split_hd_decompose [OF tl] obtain rest where "xs = hd (split c xs) @ c # rest" ..
        with seg have "x # xs = [] @ seg @ c # rest" by simp
        then show ?thesis by blast
      next
        assume "seg \<in> set (butlast (tl (split c xs)))"
        with bl have "seg \<in> set (butlast (split c xs))" by simp
        from Cons.IH [OF this] obtain pre post where "xs = pre @ seg @ c # post" by blast
        then have "x # xs = (x # pre) @ seg @ c # post" by simp
        then show ?thesis by blast
      qed
    qed
  qed
qed

lemma sublist_sep_iff_segment:
  assumes "c \<notin> set t"
  shows "sublist (t @ [c]) s \<longleftrightarrow> (\<exists>seg \<in> set (butlast (split c s)). suffix t seg)"
proof
  assume "sublist (t @ [c]) s"
  then obtain ps ss where s: "s = ps @ (t @ [c]) @ ss" by (auto simp: sublist_def)
  then have "s = (ps @ t) @ c # ss" by simp
  then have "split c s = split c (ps @ t) @ split c ss" by (simp only: split_append_sep)
  also have "split c (ps @ t) = butlast (split c ps) @ [last (split c ps) @ t]"
    using assms by (rule split_append_no_sep)
  finally have "butlast (split c s) =
      butlast (split c ps) @ [last (split c ps) @ t] @ butlast (split c ss)"
    by (simp add: butlast_append)
  then have "last (split c ps) @ t \<in> set (butlast (split c s))" by simp
  moreover have "suffix t (last (split c ps) @ t)" by (simp add: suffix_def)
  ultimately show "\<exists>seg \<in> set (butlast (split c s)). suffix t seg" by blast
next
  assume "\<exists>seg \<in> set (butlast (split c s)). suffix t seg"
  then obtain seg where seg: "seg \<in> set (butlast (split c s))" and "suffix t seg" by blast
  then obtain u where u: "seg = u @ t" by (auto simp: suffix_def)
  from split_segment_decompose [OF seg] obtain pre post where "s = pre @ seg @ c # post" by blast
  with u have "s = (pre @ u) @ (t @ [c]) @ post" by simp
  then show "sublist (t @ [c]) s" unfolding sublist_def by blast
qed

lemma pathContainsTest_segments:
  "pathContainsTest p \<longleftrightarrow>
     (\<exists>seg \<in> set (butlast (split CHR ''/'' p)).
        suffix ''tests'' seg \<or> suffix ''test'' seg \<or> suffix ''tst'' seg)"
proof -
  have a: "stringIncludes p ''tests/'' \<longleftrightarrow> (\<exists>seg \<in> set (butlast (split CHR ''/'' p)). suffix ''tests'' seg)"
    using sublist_sep_iff_segment [of "CHR ''/''" "''tests''" p] by (simp add: stringIncludes_sublist)
  have b: "stringIncludes p ''test/'' \<longleftrightarrow> (\<exists>seg \<in> set (butlast (split CHR ''/'' p)). suffix ''test'' seg)"
    using sublist_sep_iff_segment [of "CHR ''/''" "''test''" p] by (simp add: stringIncludes_sublist)
  have c: "stringIncludes p ''tst/'' \<longleftrightarrow> (\<exists>seg \<in> set (butlast (split CHR ''/'' p)). suffix ''tst'' seg)"
    using sublist_sep_iff_segment [of "CHR ''/''" "''tst''" p] by (simp add: stringIncludes_sublist)
  show ?thesis unfolding pathContainsTest_def a b c by blast
qed

section \<open>isTestFile\<close>

text \<open>
  C1, as the code has it. When the name heuristic yields false, \<open>isTestFile\<close>
  returns true exactly when the normalized path contains \<open>tests/\<close>, \<open>test/\<close> or
  \<open>tst/\<close> as a substring, that is, when some piece of the path that is followed by
  a slash ends in \<open>tests\<close>, \<open>test\<close> or \<open>tst\<close>. The piece need not be one of these
  words in full.
\<close>

theorem isTestFile_path_heuristic:
  assumes "isTestFileByName bn (np filePath) l = Inr False"
  shows "isTestFile np bn filePath \<lparr>languageId = l, fileContent = c\<rparr> =
           Inr (stringIncludes (np filePath) ''tests/'' \<or>
                stringIncludes (np filePath) ''test/'' \<or>
                stringIncludes (np filePath) ''tst/'') \<and>
         isTestFile np bn filePath \<lparr>languageId = l, fileContent = c\<rparr> =
           Inr (\<exists>seg \<in> set (butlast (split CHR ''/'' (np filePath))).
                  suffix ''tests'' seg \<or> suffix ''test'' seg \<or> suffix ''tst'' seg)"
proof -
  from assms have "isTestFile np bn filePath \<lparr>languageId = l, fileContent = c\<rparr> =
      Inr (pathContainsTest (np filePath))"
    by (simp add: isTestFile_def Let_def)
  then have "isTestFile np bn filePath \<lparr>languageId = l, fileContent = c\<rparr> =
      Inr (stringIncludes (np filePath) ''tests/'' \<or>
           stringIncludes (np filePath) ''test/'' \<or>
           stringIncludes (np filePath) ''tst/'')"
    and "isTestFile np bn filePath \<lparr>languageId = l, fileContent = c\<rparr> =
      Inr (\<exists>seg \<in> set (butlast (split CHR ''/'' (np filePath))).
             suffix ''tests'' seg \<or> suffix ''test'' seg \<or> suffix ''tst'' seg)"
    by (simp_all only: pathContainsTest_segments [symmetric]) (simp_all only: pathContainsTest_def)
  then show ?thesis by (rule conjI)
qed

theorem isTestFile_path_heuristic_witness:
  "isTestFileByName posixBasename (slashNormalize ''src/latest/Widget.java'') ''java'' = Inr False \<and>
   isTestFile slashNormalize posixBasename ''src/latest/Widget.java''
     \<lparr>languageId = ''java'', fileContent = None\<rparr> = Inr True \<and>
   isTestFileByName posixBasename (slashNormalize ''src/widget.go'') ''go'' = Inr False \<and>
   isTestFile slashNormalize posixBasename ''src/widget.go''
     \<lparr>languageId = ''go'', fileContent = None\<rparr> = Inr False"
proof -
  have h1: "isTestFileByName posixBasename (slashNormalize ''src/latest/Widget.java'') ''java'' = Inr False"
    by code_simp
  have h2: "isTestFileByName posixBasename (slashNormalize ''src/widget.go'') ''go'' = Inr False"
    by code_simp
  have e1: "(stringIncludes (slashNormalize ''src/latest/Widget.java'') ''tests/'' \<or>
             stringIncludes (slashNormalize ''src/latest/Widget.java'') ''test/'' \<or>
             stringIncludes (slashNormalize ''src/latest/Widget.java'') ''tst/'') = True"
    by code_simp
  have e2: "(stringIncludes (slashNormalize ''src/widget.go'') ''tests/'' \<or>
             stringIncludes (slashNormalize ''src/widget.go'') ''test/'' \<or>
             stringIncludes (slashNormalize ''src/widget.go'') ''tst/'') = False"
    by code_simp
  from isTestFile_path_heuristic
         [of posixBasename slashNormalize "''src/latest/Widget.java''" "''java''" None]
       isTestFile_path_heuristic
         [of posixBasename slashNormalize "''src/widget.go''" "''go''" None] h1 h2
  show ?thesis by (simp only: e1 e2)
qed

text \<open>
  The claim of C1 as stated fails: in \<open>src/latest/Widget.java\<close>, language \<open>java\<close>,
  the name heuristic yields false and no piece of the path is \<open>tests\<close>, \<open>test\<close> or
  \<open>tst\<close>, but \<open>latest/\<close> contains \<open>test/\<close> and the result is true.
\<close>

theorem isTestFile_whole_segment_counterexample:
  "isTestFileByName posixBasename (slashNormalize ''src/latest/Widget.java'') ''java'' = Inr False \<and>
   isTestFile slashNormalize posixBasename ''src/latest/Widget.java''
     \<lparr>languageId = ''java'', fileContent = None\<rparr> = Inr True \<and>
   split CHR ''/'' (slashNormalize ''src/latest/Widget.java'') = [''src'', ''latest'', ''Widget.java''] \<and>
   ''tests'' \<notin> set (split CHR ''/'' (slashNormalize ''src/latest/Widget.java'')) \<and>
   ''test'' \<notin> set (split CHR ''/'' (slashNormalize ''src/latest/Widget.java'')) \<and>
   ''tst'' \<notin> set (split CHR ''/'' (slashNormalize ''src/latest/Widget.java''))"
  by code_simp

text \<open>
  C9. The result of \<open>isTestFile\<close>, an error included, does not depend on
  \<open>fileContent\<close>.
\<close>

theorem isTestFile_ignores_fileContent:
  "isTestFile np bn filePath \<lparr>languageId = l, fileContent = c1\<rparr> =
   isTestFile np bn filePath \<lparr>languageId = l, fileContent = c2\<rparr>"
  by (simp add: isTestFile_def)

lemma isTestFile_ignores_fileContent_example:
  "isTestFile slashNormalize posixBasename ''src/WidgetTest.java'' \<lparr>languageId = ''java'', fileContent = None\<rparr> = Inr True \<and>
   isTestFile slashNormalize posixBasename ''src/WidgetTest.java'' \<lparr>languageId = ''java'', fileContent = Some ''class A {}''\<rparr> = Inr True"
  by code_simp

lemma isTestFileByName_no_property:
  assumes "map_of utgLanguageConfigs l = None" "l \<notin> set objectPrototypeKeys"
  shows "isTestFileByName bn p l = Inr False \<and>
         isTestFile np bn filePath \<lparr>languageId = l, fileContent = c\<rparr> = Inr (pathContainsTest (np filePath))"
  using assms by (simp add: isTestFileByName_def getProperty_def isTestFile_def)

lemma isTestFile_spec_example_go:
  "isTestFile slashNormalize posixBasename ''src/widget.go''
     \<lparr>languageId = ''go'', fileContent = None\<rparr> = Inr False"
  by code_simp

text \<open>
  C8 at the language identifier \<open>constructor\<close>. It is not a key of
  \<open>utgLanguageConfigs\<close>, but the property read finds \<open>Object.prototype.constructor\<close>,
  so the guard \<open>!languageConfig\<close> does not return, and iterating the missing
  \<open>testFilenamePattern\<close> throws: for every path, \<open>isTestFile\<close> rejects instead of
  returning the result of the path heuristic.
\<close>

theorem isTestFile_inherited_property_throws:
  "map_of utgLanguageConfigs ''constructor'' = None \<and>
   isTestFileByName bn p ''constructor'' = Inl TypeError \<and>
   isTestFile np bn filePath \<lparr>languageId = ''constructor'', fileContent = c\<rparr> = Inl TypeError"
proof -
  have 1: "map_of utgLanguageConfigs ''constructor'' = None" by code_simp
  have 2: "''constructor'' \<in> set objectPrototypeKeys" by code_simp
  from 1 2 show ?thesis by (simp add: isTestFileByName_def getProperty_def isTestFile_def)
qed

section \<open>extractFunctions\<close>

lemma search_None:
  "search False m S k = None \<Longrightarrow> \<forall>j. k \<le> j \<and> j \<le> length S \<longrightarrow> m S j = None"
proof (induction "Suc (length S) - k" arbitrary: k)
  case 0
  then show ?case by auto
next
  case (Suc n)
  then have le: "\<not> k > length S" by auto
  with Suc.prems have n: "m S k = None" and r: "search False m S (k + 1) = None"
    by (auto simp: search.simps [of False m S k] split: option.splits)
  from Suc.hyps(2) have "n = Suc (length S) - (k + 1)" by simp
  from Suc.hyps(1) [OF this r] have "\<forall>j. k + 1 \<le> j \<and> j \<le> length S \<longrightarrow> m S j = None" .
  with n show ?case by (metis Suc_eq_plus1 Suc_leI le_neq_implies_less)
qed

lemma search_Some:
  "search False m S k = Some (i, e, g) \<Longrightarrow>
     k \<le> i \<and> i \<le> length S \<and> m S i = Some (e, g) \<and> (\<forall>j. k \<le> j \<and> j < i \<longrightarrow> m S j = None)"
proof (induction "Suc (length S) - k" arbitrary: k)
  case 0
  then have "k > length S" by auto
  with "0.prems" show ?case by (simp add: search.simps [of False m S k])
next
  case (Suc n)
  then have le: "\<not> k > length S" by auto
  show ?case
  proof (cases "m S k")
    case None
    with le Suc.prems have r: "search False m S (k + 1) = Some (i, e, g)"
      by (simp add: search.simps [of False m S k])
    from Suc.hyps(2) have "n = Suc (length S) - (k + 1)" by simp
    from Suc.hyps(1) [OF this r] have
      "k + 1 \<le> i \<and> i \<le> length S \<and> m S i = Some (e, g) \<and> (\<forall>j. k + 1 \<le> j \<and> j < i \<longrightarrow> m S j = None)" .
    with None show ?thesis by (metis Suc_eq_plus1 Suc_leI le_neq_implies_less Suc_leD)
  next
    case (Some a)
    with le Suc.prems have "a = (e, g)" "k = i"
      by (auto simp: search.simps [of False m S k] split: prod.splits)
    with Some le show ?thesis by auto
  qed
qed

lemma scan_Nil_iff: "scan m S k [] \<longleftrightarrow> (\<forall>j. k \<le> j \<and> j \<le> length S \<longrightarrow> m S j = None)"
  unfolding scan.simps list_all_iff set_upt by auto

lemma scan_Cons_iff:
  "scan m S k ((i, e, g) # ms) \<longleftrightarrow>
     k \<le> i \<and> i \<le> length S \<and> (\<forall>j. k \<le> j \<and> j < i \<longrightarrow> m S j = None) \<and>
     m S i = Some (e, g) \<and> scan m S e ms"
  unfolding scan.simps list_all_iff set_upt by auto

declare scan.simps [simp del]

lemma exec_global_None:
  assumes "global r" "\<not> sticky r" "search False (matcher r) S (lastIndex r) = None"
  shows "exec r S = (None, r\<lparr>lastIndex := 0\<rparr>)"
  using assms by (simp add: exec_def)

lemma exec_global_Some:
  assumes "global r" "\<not> sticky r" "search False (matcher r) S (lastIndex r) = Some (i, e, g)"
  shows "exec r S = (Some (i, e, g), r\<lparr>lastIndex := e\<rparr>)"
  using assms by (simp add: exec_def)

lemma exec_plain_None:
  assumes "\<not> global r" "\<not> sticky r" "search False (matcher r) S 0 = None"
  shows "exec r S = (None, r)"
  using assms by (simp add: exec_def)

lemma exec_plain_Some:
  assumes "\<not> global r" "\<not> sticky r" "search False (matcher r) S 0 = Some (i, e, g)"
  shows "exec r S = (Some (i, e, g), r)"
  using assms by (simp add: exec_def)

lemma extractLoop_null:
  "exec r S = (None, r') \<Longrightarrow> extractLoop limit r S acc = Inr (acc, r')"
  by (simp add: extractLoop.simps [of limit r S acc])

lemma extractLoop_full:
  "exec r S = (Some (i, e, g), r') \<Longrightarrow> limit \<le> length acc \<Longrightarrow>
     extractLoop limit r S acc = Inl RangeError"
  by (simp add: extractLoop.simps [of limit r S acc])

lemma extractLoop_push:
  "exec r S = (Some (i, e, g), r') \<Longrightarrow> length acc < limit \<Longrightarrow>
     extractLoop limit r S acc = extractLoop limit r' S (acc @ [g])"
  by (simp add: extractLoop.simps [of limit r S acc])

lemma scan_unique: "scan m S k ms \<Longrightarrow> scan m S k ms' \<Longrightarrow> ms = ms'"
proof (induction ms arbitrary: k ms')
  case Nil
  show ?case
  proof (cases ms')
    case Nil then show ?thesis by simp
  next
    case (Cons a list)
    obtain i e g where a: "a = (i, e, g)" by (cases a)
    from Nil.prems(2) have "k \<le> i" "i \<le> length S" "m S i = Some (e, g)"
      unfolding Cons a scan_Cons_iff by auto
    with Nil.prems(1) show ?thesis unfolding scan_Nil_iff by auto
  qed
next
  case (Cons a ms)
  obtain i e g where a: "a = (i, e, g)" by (cases a)
  from Cons.prems(1) have 1: "k \<le> i" "i \<le> length S" "\<forall>j. k \<le> j \<and> j < i \<longrightarrow> m S j = None"
    "m S i = Some (e, g)" "scan m S e ms"
    unfolding a scan_Cons_iff by auto
  show ?case
  proof (cases ms')
    case Nil
    with Cons.prems(2) have "\<forall>j. k \<le> j \<and> j \<le> length S \<longrightarrow> m S j = None"
      by (simp add: scan_Nil_iff)
    with 1 show ?thesis by auto
  next
    case (Cons b list)
    obtain i' e' g' where b: "b = (i', e', g')" by (cases b)
    from Cons.prems(2) have 2: "k \<le> i'" "i' \<le> length S" "\<forall>j. k \<le> j \<and> j < i' \<longrightarrow> m S j = None"
      "m S i' = Some (e', g')" "scan m S e' list"
      unfolding Cons b scan_Cons_iff by auto
    have "i = i'"
    proof (rule ccontr)
      assume "i \<noteq> i'"
      then consider "i < i'" | "i' < i" by linarith
      then show False
      proof cases
        case 1 with \<open>k \<le> i\<close> 2(3) \<open>m S i = Some (e, g)\<close> show False by auto
      next
        case 2 with \<open>k \<le> i'\<close> 1(3) \<open>m S i' = Some (e', g')\<close> show False by auto
      qed
    qed
    with 1(4) 2(4) have eq: "e = e'" "g = g'" by auto
    with 1(5) 2(5) Cons.IH have "ms = list" by blast
    with \<open>i = i'\<close> eq show ?thesis by (simp add: Cons a b)
  qed
qed


lemma extractLoop_scan:
  assumes g: "global r" and ns: "\<not> sticky r"
    and ne: "\<forall>i e g. matcher r S i = Some (e, g) \<longrightarrow> i < e"
    and room: "length acc \<le> limit"
  shows "\<exists>ms. scan (matcher r) S (lastIndex r) ms \<and>
           (length acc + length ms \<le> limit \<longrightarrow>
              extractLoop limit r S acc = Inr (acc @ map (\<lambda>(i, e, g). g) ms, r\<lparr>lastIndex := 0\<rparr>)) \<and>
           (limit < length acc + length ms \<longrightarrow> extractLoop limit r S acc = Inl RangeError)"
  using g ns ne room
proof (induction "Suc (length S) - lastIndex r" arbitrary: r acc rule: less_induct)
  case less
  let ?m = "matcher r" and ?k = "lastIndex r"
  show ?case
  proof (cases "search False ?m S ?k")
    case None
    from search_None [OF None] have "scan ?m S ?k []" by (simp add: scan_Nil_iff)
    moreover from exec_global_None [OF less.prems(1,2) None]
    have "extractLoop limit r S acc = Inr (acc, r\<lparr>lastIndex := 0\<rparr>)"
      by (rule extractLoop_null)
    ultimately show ?thesis using less.prems(4) by (intro exI [of _ "[]"]) simp
  next
    case (Some a)
    obtain i e g where a: "a = (i, e, g)" by (cases a)
    from search_Some [OF Some [unfolded a]] have
      s: "?k \<le> i" "i \<le> length S" "?m S i = Some (e, g)" "\<forall>j. ?k \<le> j \<and> j < i \<longrightarrow> ?m S j = None"
      by auto
    from less.prems(3) s(3) have ie: "i < e" by blast
    let ?r' = "r\<lparr>lastIndex := e\<rparr>"
    have dec: "Suc (length S) - lastIndex ?r' < Suc (length S) - lastIndex r"
      using s(1,2) ie by simp
    from less.prems have p': "global ?r'" "\<not> sticky ?r'"
      "\<forall>i e g. matcher ?r' S i = Some (e, g) \<longrightarrow> i < e"
      by simp_all
    have ex: "exec r S = (Some (i, e, g), ?r')"
      using exec_global_Some [OF less.prems(1,2) Some [unfolded a]] .
    show ?thesis
    proof (cases "limit \<le> length acc")
      case True
      have "length ([] :: string option list) \<le> limit" by simp
      from less.hyps [OF dec p' this] obtain ms where ms: "scan ?m S e ms" by auto
      with s have sc: "scan ?m S ?k ((i, e, g) # ms)" unfolding scan_Cons_iff by simp
      from extractLoop_full [OF ex True] have "extractLoop limit r S acc = Inl RangeError" .
      with True sc show ?thesis by (intro exI [of _ "(i, e, g) # ms"]) simp
    next
      case False
      then have lt: "length acc < limit" by simp
      then have "length (acc @ [g]) \<le> limit" by simp
      from less.hyps [OF dec p' this] obtain ms where
        ms: "scan ?m S e ms"
        "length (acc @ [g]) + length ms \<le> limit \<longrightarrow>
           extractLoop limit ?r' S (acc @ [g]) =
             Inr ((acc @ [g]) @ map (\<lambda>(i, e, g). g) ms, r\<lparr>lastIndex := 0\<rparr>)"
        "limit < length (acc @ [g]) + length ms \<longrightarrow>
           extractLoop limit ?r' S (acc @ [g]) = Inl RangeError"
        by auto
      from s ms(1) have sc: "scan ?m S ?k ((i, e, g) # ms)" unfolding scan_Cons_iff by simp
      from extractLoop_push [OF ex lt]
      have "extractLoop limit r S acc = extractLoop limit ?r' S (acc @ [g])" .
      with ms(2,3) sc show ?thesis by (intro exI [of _ "(i, e, g) # ms"]) simp
    qed
  qed
qed

lemma extractLoop_not_global:
  assumes "\<not> global r" "\<not> sticky r" "search False (matcher r) S 0 = Some (i, e, g)"
  shows "extractLoop limit r S acc = Inl RangeError"
proof (induction "limit - length acc" arbitrary: acc)
  case 0
  then have "limit \<le> length acc" by simp
  with exec_plain_Some [OF assms] show ?case by (rule extractLoop_full)
next
  case (Suc n)
  then have lt: "length acc < limit" by simp
  from Suc.hyps(2) have "n = limit - length (acc @ [g])" by simp
  from Suc.hyps(1) [OF this] have "extractLoop limit r S (acc @ [g]) = Inl RangeError" .
  with extractLoop_push [OF exec_plain_Some [OF assms] lt] show ?case by simp
qed

lemma extractFunctions_global:
  assumes g: "global regex" and ns: "\<not> sticky regex" and z: "lastIndex regex = 0"
    and ne: "\<forall>i e g. matcher regex content i = Some (e, g) \<longrightarrow> i < e"
  shows "\<exists>ms. scan (matcher regex) content 0 ms \<and>
            (\<forall>ms'. scan (matcher regex) content 0 ms' \<longrightarrow> ms' = ms) \<and>
            (length ms \<le> limit \<longrightarrow>
               extractFunctions limit content (Some regex) = Inr (map (\<lambda>(i, e, g). g) ms)) \<and>
            (limit < length ms \<longrightarrow>
               extractFunctions limit content (Some regex) = Inl RangeError)"
proof -
  have "length ([] :: string option list) \<le> limit" by simp
  from extractLoop_scan [OF g ns ne this] obtain ms where
    ms: "scan (matcher regex) content (lastIndex regex) ms"
    "length ms \<le> limit \<longrightarrow>
       extractLoop limit regex content [] = Inr (map (\<lambda>(i, e, g). g) ms, regex\<lparr>lastIndex := 0\<rparr>)"
    "limit < length ms \<longrightarrow> extractLoop limit regex content [] = Inl RangeError"
    by auto
  from ms(1) have sc: "scan (matcher regex) content 0 ms" by (simp only: z)
  have u: "\<forall>ms'. scan (matcher regex) content 0 ms' \<longrightarrow> ms' = ms"
  proof (intro allI impI)
    fix ms' assume "scan (matcher regex) content 0 ms'"
    then show "ms' = ms" using sc by (rule scan_unique)
  qed
  from ms(2) have a: "length ms \<le> limit \<longrightarrow>
      extractFunctions limit content (Some regex) = Inr (map (\<lambda>(i, e, g). g) ms)"
    by (simp add: extractFunctions_def)
  from ms(3) have b: "limit < length ms \<longrightarrow>
      extractFunctions limit content (Some regex) = Inl RangeError"
    by (simp add: extractFunctions_def)
  from sc u a b show ?thesis by (intro exI [of _ ms] conjI)
qed

lemma extractFunctions_not_global:
  assumes "\<not> global regex" "\<not> sticky regex" "search False (matcher regex) content 0 \<noteq> None"
  shows "extractFunctions limit content (Some regex) = Inl RangeError"
proof -
  from assms(3) obtain i e g where "search False (matcher regex) content 0 = Some (i, e, g)"
    by (cases "search False (matcher regex) content 0") auto
  from extractLoop_not_global [OF assms(1,2) this]
  show ?thesis by (simp add: extractFunctions_def)
qed

text \<open>
  C7, as the code has it, for every bound \<open>limit\<close> on the length of an array.
  With no pattern, \<open>extractFunctions\<close> returns the empty array. With a pattern that
  has the \<open>g\<close> flag and not the \<open>y\<close> flag, whose \<open>lastIndex\<close> is 0 and which
  matches no empty string in the content, there is exactly one sequence of matches
  that \<open>scan\<close> describes (from the start of the content, each match the first one at
  or after the end of the one before); when the array can hold that many elements,
  \<open>extractFunctions\<close> returns the first capture group of each of them, in the order
  of occurrence, repeated names kept, and otherwise \<open>push\<close> throws a \<open>RangeError\<close>.
  With a pattern that has neither the \<open>g\<close> nor the \<open>y\<close> flag and that matches
  somewhere in the content, \<open>exec\<close> finds the same match at every call, and
  \<open>extractFunctions\<close> throws the \<open>RangeError\<close> of \<open>push\<close>.
\<close>

theorem extractFunctions_matches:
  "extractFunctions limit content None = Inr [] \<and>
   (global regex \<and> \<not> sticky regex \<and> lastIndex regex = 0 \<and>
    (\<forall>i e g. matcher regex content i = Some (e, g) \<longrightarrow> i < e) \<longrightarrow>
      (\<exists>ms. scan (matcher regex) content 0 ms \<and>
            (\<forall>ms'. scan (matcher regex) content 0 ms' \<longrightarrow> ms' = ms) \<and>
            (length ms \<le> limit \<longrightarrow>
               extractFunctions limit content (Some regex) = Inr (map (\<lambda>(i, e, g). g) ms)) \<and>
            (limit < length ms \<longrightarrow>
               extractFunctions limit content (Some regex) = Inl RangeError))) \<and>
   (\<not> global regex \<and> \<not> sticky regex \<and> search False (matcher regex) content 0 \<noteq> None \<longrightarrow>
      extractFunctions limit content (Some regex) = Inl RangeError)"
proof (intro conjI impI)
  show "extractFunctions limit content None = Inr []" by (simp add: extractFunctions_def)
next
  assume a: "global regex \<and> \<not> sticky regex \<and> lastIndex regex = 0 \<and>
    (\<forall>i e g. matcher regex content i = Some (e, g) \<longrightarrow> i < e)"
  from a have g: "global regex" by (rule conjunct1)
  from a have ns: "\<not> sticky regex" by (rule conjunct2 [THEN conjunct1])
  from a have z: "lastIndex regex = 0" by (rule conjunct2 [THEN conjunct2, THEN conjunct1])
  from a have ne: "\<forall>i e g. matcher regex content i = Some (e, g) \<longrightarrow> i < e"
    by (rule conjunct2 [THEN conjunct2, THEN conjunct2])
  from g ns z ne show "\<exists>ms. scan (matcher regex) content 0 ms \<and>
            (\<forall>ms'. scan (matcher regex) content 0 ms' \<longrightarrow> ms' = ms) \<and>
            (length ms \<le> limit \<longrightarrow>
               extractFunctions limit content (Some regex) = Inr (map (\<lambda>(i, e, g). g) ms)) \<and>
            (limit < length ms \<longrightarrow>
               extractFunctions limit content (Some regex) = Inl RangeError)"
    by (rule extractFunctions_global)
next
  assume b: "\<not> global regex \<and> \<not> sticky regex \<and> search False (matcher regex) content 0 \<noteq> None"
  from b have 1: "\<not> global regex" by (rule conjunct1)
  from b have 2: "\<not> sticky regex" by (rule conjunct2 [THEN conjunct1])
  from b have 3: "search False (matcher regex) content 0 \<noteq> None" by (rule conjunct2 [THEN conjunct2])
  from 1 2 3 show "extractFunctions limit content (Some regex) = Inl RangeError"
    by (rule extractFunctions_not_global)
qed

lemma matchA_progress: "\<forall>i e g. matchA S i = Some (e, g) \<longrightarrow> i < e"
  by (auto simp: matchA_def split: if_splits)

lemma search_matchA: "search False matchA ''a'' 0 = Some (0, 1, Some ''a'')"
  by (simp add: search.simps [of False matchA "''a''" 0] matchA_def)

lemma maxArrayLength_ge_2: "2 \<le> maxArrayLength"
  by (simp add: maxArrayLength_def)

theorem extractFunctions_matches_witness:
  "global (regexA True) \<and> \<not> sticky (regexA True) \<and> lastIndex (regexA True) = 0 \<and>
   scan (matcher (regexA True)) ''a ba'' 0 [(0, 1, Some ''a''), (3, 4, Some ''a'')] \<and>
   extractFunctions maxArrayLength ''a ba'' (Some (regexA True)) = Inr [Some ''a'', Some ''a''] \<and>
   extractFunctions 1 ''a ba'' (Some (regexA True)) = Inl RangeError \<and>
   \<not> global (regexA False) \<and> \<not> sticky (regexA False) \<and>
   search False (matcher (regexA False)) ''a'' 0 = Some (0, 1, Some ''a'') \<and>
   extractFunctions maxArrayLength ''a'' (Some (regexA False)) = Inl RangeError"
proof -
  have h: "global (regexA True) \<and> \<not> sticky (regexA True) \<and> lastIndex (regexA True) = 0 \<and>
      (\<forall>i e g. matcher (regexA True) ''a ba'' i = Some (e, g) \<longrightarrow> i < e)"
    using matchA_progress by (simp add: regexA_def)
  have s: "scan (matcher (regexA True)) ''a ba'' 0 [(0, 1, Some ''a''), (3, 4, Some ''a'')]"
    by code_simp
  from extractFunctions_matches [of maxArrayLength "''a ba''" "regexA True"] h obtain ms where
    ms: "\<forall>ms'. scan (matcher (regexA True)) ''a ba'' 0 ms' \<longrightarrow> ms' = ms"
      "length ms \<le> maxArrayLength \<longrightarrow>
         extractFunctions maxArrayLength ''a ba'' (Some (regexA True)) = Inr (map (\<lambda>(i, e, g). g) ms)"
    by blast
  from ms(1) s have eq: "ms = [(0, 1, Some ''a''), (3, 4, Some ''a'')]" by blast
  with ms(2) maxArrayLength_ge_2
  have r1: "extractFunctions maxArrayLength ''a ba'' (Some (regexA True)) = Inr [Some ''a'', Some ''a'']"
    by simp
  from extractFunctions_matches [of 1 "''a ba''" "regexA True"] h obtain ms1 where
    ms1: "\<forall>ms'. scan (matcher (regexA True)) ''a ba'' 0 ms' \<longrightarrow> ms' = ms1"
      "1 < length ms1 \<longrightarrow> extractFunctions 1 ''a ba'' (Some (regexA True)) = Inl RangeError"
    by blast
  from ms1(1) s have "ms1 = [(0, 1, Some ''a''), (3, 4, Some ''a'')]" by blast
  with ms1(2) have r2: "extractFunctions 1 ''a ba'' (Some (regexA True)) = Inl RangeError"
    by simp
  have p: "\<not> global (regexA False) \<and> \<not> sticky (regexA False)" by (simp add: regexA_def)
  have q: "search False (matcher (regexA False)) ''a'' 0 = Some (0, 1, Some ''a'')"
    using search_matchA by (simp add: regexA_def)
  from extractFunctions_matches [of maxArrayLength "''a''" "regexA False"] p q
  have r3: "extractFunctions maxArrayLength ''a'' (Some (regexA False)) = Inl RangeError"
    by simp
  from h s r1 r2 p q r3 show ?thesis by blast
qed

text \<open>
  The claim of C7 as stated fails for a pattern without the \<open>g\<close> flag:
  \<open>extractFunctions("a", /(a)/)\<close> does not return the one name \<open>a\<close>; \<open>exec\<close>
  finds the match at 0 again and again, and the call ends with a \<open>RangeError\<close> when
  the array is full.
\<close>

theorem extractFunctions_not_global_counterexample:
  "extractFunctions maxArrayLength ''a'' (Some (regexA False)) = Inl RangeError"
proof (rule extractFunctions_not_global)
  show "\<not> global (regexA False)" by (simp add: regexA_def)
  show "\<not> sticky (regexA False)" by (simp add: regexA_def)
  show "search False (matcher (regexA False)) ''a'' 0 \<noteq> None"
    using search_matchA by (simp add: regexA_def)
qed

text \<open>
  The \<open>y\<close> flag changes the result: on \<open>ba\<close>, \<open>/(a)/gy\<close> fails at position 0 and
  the result is empty, where \<open>/(a)/g\<close> finds the \<open>a\<close> at position 1.
\<close>

lemma extractFunctions_sticky_example:
  "extractFunctions maxArrayLength ''ba'' (Some ((regexA True)\<lparr>sticky := True\<rparr>)) = Inr [] \<and>
   extractFunctions maxArrayLength ''ba'' (Some (regexA True)) = Inr [Some ''a'']"
proof
  let ?r = "(regexA True)\<lparr>sticky := True\<rparr>"
  have "search True matchA ''ba'' 0 = None"
    by (simp add: search.simps [of True matchA "''ba''" 0] matchA_def)
  then have "exec ?r ''ba'' = (None, ?r\<lparr>lastIndex := 0\<rparr>)"
    by (simp add: exec_def regexA_def)
  then have "extractLoop maxArrayLength ?r ''ba'' [] = Inr ([], ?r\<lparr>lastIndex := 0\<rparr>)"
    by (rule extractLoop_null)
  then show "extractFunctions maxArrayLength ''ba'' (Some ?r) = Inr []"
    by (simp add: extractFunctions_def)
next
  have g: "global (regexA True)" and ns: "\<not> sticky (regexA True)" and z: "lastIndex (regexA True) = 0"
    by (simp_all add: regexA_def)
  have ne: "\<forall>i e g. matcher (regexA True) ''ba'' i = Some (e, g) \<longrightarrow> i < e"
    using matchA_progress by (simp add: regexA_def)
  have s: "scan (matcher (regexA True)) ''ba'' 0 [(1, 2, Some ''a'')]" by code_simp
  from extractFunctions_global [OF g ns z ne, of maxArrayLength] obtain ms where
    ms: "\<forall>ms'. scan (matcher (regexA True)) ''ba'' 0 ms' \<longrightarrow> ms' = ms"
      "length ms \<le> maxArrayLength \<longrightarrow>
         extractFunctions maxArrayLength ''ba'' (Some (regexA True)) = Inr (map (\<lambda>(i, e, g). g) ms)"
    by blast
  from ms(1) s have "ms = [(1, 2, Some ''a'')]" by blast
  with ms(2) maxArrayLength_ge_2
  show "extractFunctions maxArrayLength ''ba'' (Some (regexA True)) = Inr [Some ''a'']"
    by simp
qed

section \<open>getNonexistentFilename\<close>

lemma probe_spec:
  "\<exists>k\<ge>i. probe files join rb dir name sfx mx i =
            (filenameAt rb name sfx mx k,
             map (\<lambda>j. join dir (filenameAt rb name sfx mx j)) [i ..< Suc k]) \<and>
          (\<not> exists files (join dir (filenameAt rb name sfx mx k)) \<or> mx + 99 \<le> int k) \<and>
          (\<forall>j. i \<le> j \<and> j < k \<longrightarrow>
               exists files (join dir (filenameAt rb name sfx mx j)) \<and> int j < mx + 99)"
proof (induction files join rb dir name sfx mx i rule: probe.induct)
  case (1 files join rb dir name sfx mx i)
  let ?f = "\<lambda>j. filenameAt rb name sfx mx j"
  let ?stop = "\<lambda>j. \<not> exists files (join dir (?f j)) \<or> mx + 99 \<le> int j"
  show ?case
  proof (cases "?stop i")
    case True
    then have "probe files join rb dir name sfx mx i = (?f i, [join dir (?f i)])"
      by (subst probe.simps) (auto simp: Let_def)
    with True show ?thesis by (intro exI [of _ i]) auto
  next
    case False
    from "1.IH" [OF refl refl False] obtain k where k: "i + 1 \<le> k"
      "probe files join rb dir name sfx mx (i + 1) =
         (?f k, map (\<lambda>j. join dir (?f j)) [i + 1 ..< Suc k])"
      "?stop k"
      "\<forall>j. i + 1 \<le> j \<and> j < k \<longrightarrow> exists files (join dir (?f j)) \<and> int j < mx + 99"
      by blast
    from False k(2) have "probe files join rb dir name sfx mx i =
        (?f k, join dir (?f i) # map (\<lambda>j. join dir (?f j)) [i + 1 ..< Suc k])"
      by (subst probe.simps) (auto simp: Let_def)
    moreover from k(1) have "[i ..< Suc k] = i # [i + 1 ..< Suc k]"
      by (simp add: upt_conv_Cons)
    ultimately have r: "probe files join rb dir name sfx mx i =
        (?f k, map (\<lambda>j. join dir (?f j)) [i ..< Suc k])" by simp
    have "\<forall>j. i \<le> j \<and> j < k \<longrightarrow> exists files (join dir (?f j)) \<and> int j < mx + 99"
    proof (intro allI impI)
      fix j assume j: "i \<le> j \<and> j < k"
      show "exists files (join dir (?f j)) \<and> int j < mx + 99"
      proof (cases "j = i")
        case True with False show ?thesis by auto
      next
        case False with j k(4) show ?thesis by auto
      qed
    qed
    with r k(1,3) show ?thesis by (intro exI [of _ k]) auto
  qed
qed

lemma getNonexistentFilename_ok:
  assumes ok: "name \<noteq> [] \<and> existsDir files dir"
  shows "\<exists>k. getNonexistentFilename files join rb dir name sfx maxArg =
              Inr (filenameAt rb name sfx (maxOrDefault maxArg) k,
                   map (\<lambda>j. join dir (filenameAt rb name sfx (maxOrDefault maxArg) j)) [0 ..< Suc k]) \<and>
           (\<not> exists files (join dir (filenameAt rb name sfx (maxOrDefault maxArg) k)) \<or>
            maxOrDefault maxArg + 99 \<le> int k) \<and>
           (\<forall>j<k. exists files (join dir (filenameAt rb name sfx (maxOrDefault maxArg) j)) \<and>
                   int j < maxOrDefault maxArg + 99) \<and>
           int k \<le> max 0 (maxOrDefault maxArg + 99) \<and>
           probeCount (getNonexistentFilename files join rb dir name sfx maxArg) = Suc k"
proof -
  let ?mx = "maxOrDefault maxArg"
  from probe_spec [of 0 files join rb dir name sfx ?mx] obtain k where k:
    "probe files join rb dir name sfx ?mx 0 =
       (filenameAt rb name sfx ?mx k, map (\<lambda>j. join dir (filenameAt rb name sfx ?mx j)) [0 ..< Suc k])"
    "\<not> exists files (join dir (filenameAt rb name sfx ?mx k)) \<or> ?mx + 99 \<le> int k"
    "\<forall>j. 0 \<le> j \<and> j < k \<longrightarrow> exists files (join dir (filenameAt rb name sfx ?mx j)) \<and> int j < ?mx + 99"
    by blast
  have b: "int k \<le> max 0 (?mx + 99)"
  proof (cases k)
    case 0 then show ?thesis by simp
  next
    case (Suc n)
    with k(3) have "int n < ?mx + 99" by auto
    with Suc show ?thesis by simp
  qed
  from k(1) ok have r: "getNonexistentFilename files join rb dir name sfx maxArg =
      Inr (filenameAt rb name sfx ?mx k, map (\<lambda>j. join dir (filenameAt rb name sfx ?mx j)) [0 ..< Suc k])"
    by (simp add: getNonexistentFilename_def Let_def)
  then have c: "probeCount (getNonexistentFilename files join rb dir name sfx maxArg) = Suc k"
    by (simp add: probeCount_def del: upt_Suc)
  from r k(2,3) b c show ?thesis by (intro exI [of _ k]) simp
qed

lemma probeCount_le:
  assumes ok: "name \<noteq> [] \<and> existsDir files dir"
  shows "probeCount (getNonexistentFilename files join rb dir name sfx maxArg) \<le>
           nat (max 0 (maxOrDefault maxArg + 99)) + 1"
proof -
  from getNonexistentFilename_ok [OF ok, of join rb sfx maxArg] obtain k where
    "int k \<le> max 0 (maxOrDefault maxArg + 99)"
    "probeCount (getNonexistentFilename files join rb dir name sfx maxArg) = Suc k"
    by blast
  then show ?thesis by simp
qed

lemma probeCount_all_exist:
  assumes ok: "name \<noteq> [] \<and> existsDir files dir"
    and all: "\<forall>j. exists files (join dir (filenameAt rb name sfx (maxOrDefault maxArg) j))"
  shows "probeCount (getNonexistentFilename files join rb dir name sfx maxArg) =
           nat (max 0 (maxOrDefault maxArg + 99)) + 1"
proof -
  let ?mx = "maxOrDefault maxArg"
  from getNonexistentFilename_ok [OF ok, of join rb sfx maxArg] obtain k where k:
    "\<not> exists files (join dir (filenameAt rb name sfx ?mx k)) \<or> ?mx + 99 \<le> int k"
    "int k \<le> max 0 (?mx + 99)"
    "probeCount (getNonexistentFilename files join rb dir name sfx maxArg) = Suc k"
    by blast
  from k(1) all have "?mx + 99 \<le> int k" by simp
  with k(2) have "int k = max 0 (?mx + 99)" by simp
  then have "k = nat (max 0 (?mx + 99))" by simp
  with k(3) show ?thesis by simp
qed

lemma hexDigit_mem: "n < 16 \<Longrightarrow> hexDigit n \<in> set ''0123456789abcdef''"
  unfolding hexDigit_def by (rule nth_mem) simp

lemma length_toHex: "length (toHex bytes) = 2 * length bytes"
  by (induction bytes) (simp_all add: toHex_def)

lemma length_randomBytes: "length (randomBytes rb i n) = n"
  by (simp add: randomBytes_def)

lemma token_length: "length (toHex (randomBytes rb i 4)) = 8"
  by (simp add: length_toHex length_randomBytes)

lemma token_hex: "set (toHex (randomBytes rb i n)) \<subseteq> set ''0123456789abcdef''"
proof
  fix c assume "c \<in> set (toHex (randomBytes rb i n))"
  then obtain b where b: "b \<in> set (randomBytes rb i n)"
    and c: "c = hexDigit (b div 16) \<or> c = hexDigit (b mod 16)"
    by (auto simp: toHex_def)
  from b have "b < 256" by (auto simp: randomBytes_def)
  then have "b div 16 < 16" "b mod 16 < 16" by simp_all
  with c hexDigit_mem show "c \<in> set ''0123456789abcdef''" by blast
qed

text \<open>
  C3, as the code has it, for an integer \<open>max\<close> (99 when the argument is omitted).
  \<open>getNonexistentFilename\<close> throws exactly when \<open>name\<close> is empty or \<open>dir\<close> is not
  an existing directory. Otherwise it returns the name generated at the first attempt
  \<open>k\<close> whose name does not exist in \<open>dir\<close> or for which \<open>k \<ge> max + 99\<close>, after
  probing the names of the attempts \<open>0, ..., k\<close> in this order, which is \<open>k + 1\<close>
  probes. \<open>k\<close> is at most \<open>max + 99\<close>, or 0 when \<open>max + 99\<close> is negative: the
  number of probes is at most \<open>max + 100\<close> when \<open>max \<ge> -99\<close> and is 1 otherwise, and
  it is exactly this bound when every generated name exists. The name of attempt 0 is
  \<open>name + suffix\<close>; for \<open>0 < i < max\<close> it is \<open>name-i + suffix\<close>; for \<open>i \<ge> max\<close>,
  \<open>i > 0\<close>, it is \<open>name-token + suffix\<close>, where the token drawn at that attempt is 8
  lowercase hexadecimal digits.
\<close>

theorem getNonexistentFilename_probes:
  "(isl (getNonexistentFilename files join rb dir name sfx maxArg) \<longleftrightarrow>
      name = [] \<or> \<not> existsDir files dir) \<and>
   (name \<noteq> [] \<and> existsDir files dir \<longrightarrow>
      (\<exists>k. getNonexistentFilename files join rb dir name sfx maxArg =
              Inr (filenameAt rb name sfx (maxOrDefault maxArg) k,
                   map (\<lambda>j. join dir (filenameAt rb name sfx (maxOrDefault maxArg) j)) [0 ..< Suc k]) \<and>
           (\<not> exists files (join dir (filenameAt rb name sfx (maxOrDefault maxArg) k)) \<or>
            maxOrDefault maxArg + 99 \<le> int k) \<and>
           (\<forall>j<k. exists files (join dir (filenameAt rb name sfx (maxOrDefault maxArg) j)) \<and>
                   int j < maxOrDefault maxArg + 99) \<and>
           int k \<le> max 0 (maxOrDefault maxArg + 99) \<and>
           probeCount (getNonexistentFilename files join rb dir name sfx maxArg) = Suc k)) \<and>
   (name \<noteq> [] \<and> existsDir files dir \<longrightarrow>
      probeCount (getNonexistentFilename files join rb dir name sfx maxArg) \<le>
        nat (max 0 (maxOrDefault maxArg + 99)) + 1) \<and>
   (name \<noteq> [] \<and> existsDir files dir \<and>
    (\<forall>j. exists files (join dir (filenameAt rb name sfx (maxOrDefault maxArg) j))) \<longrightarrow>
      probeCount (getNonexistentFilename files join rb dir name sfx maxArg) =
        nat (max 0 (maxOrDefault maxArg + 99)) + 1) \<and>
   filenameAt rb name sfx mx 0 = name @ sfx \<and>
   (0 < i \<and> int i < mx \<longrightarrow> filenameAt rb name sfx mx i = name @ ''-'' @ decimal i @ sfx) \<and>
   (0 < i \<and> mx \<le> int i \<longrightarrow>
      filenameAt rb name sfx mx i = name @ ''-'' @ toHex (randomBytes rb i 4) @ sfx) \<and>
   length (toHex (randomBytes rb i 4)) = 8 \<and>
   set (toHex (randomBytes rb i 4)) \<subseteq> set ''0123456789abcdef'' \<and>
   maxOrDefault None = 99 \<and> maxOrDefault (Some mx) = mx"
proof -
  have c1: "isl (getNonexistentFilename files join rb dir name sfx maxArg) \<longleftrightarrow>
      name = [] \<or> \<not> existsDir files dir"
    by (simp add: getNonexistentFilename_def Let_def)
  have c2: "name \<noteq> [] \<and> existsDir files dir \<longrightarrow>
      (\<exists>k. getNonexistentFilename files join rb dir name sfx maxArg =
              Inr (filenameAt rb name sfx (maxOrDefault maxArg) k,
                   map (\<lambda>j. join dir (filenameAt rb name sfx (maxOrDefault maxArg) j)) [0 ..< Suc k]) \<and>
           (\<not> exists files (join dir (filenameAt rb name sfx (maxOrDefault maxArg) k)) \<or>
            maxOrDefault maxArg + 99 \<le> int k) \<and>
           (\<forall>j<k. exists files (join dir (filenameAt rb name sfx (maxOrDefault maxArg) j)) \<and>
                   int j < maxOrDefault maxArg + 99) \<and>
           int k \<le> max 0 (maxOrDefault maxArg + 99) \<and>
           probeCount (getNonexistentFilename files join rb dir name sfx maxArg) = Suc k)"
    by (rule impI) (rule getNonexistentFilename_ok)
  have c3: "name \<noteq> [] \<and> existsDir files dir \<longrightarrow>
      probeCount (getNonexistentFilename files join rb dir name sfx maxArg) \<le>
        nat (max 0 (maxOrDefault maxArg + 99)) + 1"
    by (rule impI) (rule probeCount_le)
  have c4: "name \<noteq> [] \<and> existsDir files dir \<and>
    (\<forall>j. exists files (join dir (filenameAt rb name sfx (maxOrDefault maxArg) j))) \<longrightarrow>
      probeCount (getNonexistentFilename files join rb dir name sfx maxArg) =
        nat (max 0 (maxOrDefault maxArg + 99)) + 1"
  proof
    assume a: "name \<noteq> [] \<and> existsDir files dir \<and>
      (\<forall>j. exists files (join dir (filenameAt rb name sfx (maxOrDefault maxArg) j)))"
    then have "name \<noteq> [] \<and> existsDir files dir"
      and "\<forall>j. exists files (join dir (filenameAt rb name sfx (maxOrDefault maxArg) j))"
      by simp_all
    then show "probeCount (getNonexistentFilename files join rb dir name sfx maxArg) =
        nat (max 0 (maxOrDefault maxArg + 99)) + 1"
      by (rule probeCount_all_exist)
  qed
  have c5: "filenameAt rb name sfx mx 0 = name @ sfx"
    by (simp add: filenameAt_def)
  have c6: "0 < i \<and> int i < mx \<longrightarrow> filenameAt rb name sfx mx i = name @ ''-'' @ decimal i @ sfx"
    by (simp add: filenameAt_def)
  have c7: "0 < i \<and> mx \<le> int i \<longrightarrow>
       filenameAt rb name sfx mx i = name @ ''-'' @ toHex (randomBytes rb i 4) @ sfx"
    by (simp add: filenameAt_def)
  have c8: "length (toHex (randomBytes rb i 4)) = 8" by (rule token_length)
  have c9: "set (toHex (randomBytes rb i 4)) \<subseteq> set ''0123456789abcdef''" by (rule token_hex)
  have c10: "maxOrDefault None = 99" by (simp add: maxOrDefault_def)
  have c11: "maxOrDefault (Some mx) = mx" by (simp add: maxOrDefault_def)
  show ?thesis
    apply (rule conjI [OF c1])
    apply (rule conjI [OF c2])
    apply (rule conjI [OF c3])
    apply (rule conjI [OF c4])
    apply (rule conjI [OF c5])
    apply (rule conjI [OF c6])
    apply (rule conjI [OF c7])
    apply (rule conjI [OF c8])
    apply (rule conjI [OF c9])
    apply (rule conjI [OF c10])
    apply (rule c11)
    done
qed

theorem getNonexistentFilename_probes_witness:
  "''foo'' \<noteq> [] \<and> existsDir onlyFooTxt ''dir'' \<and>
   \<not> isl (getNonexistentFilename onlyFooTxt joinWithSlash fixedByte ''dir'' ''foo'' ''.txt'' None) \<and>
   getNonexistentFilename onlyFooTxt joinWithSlash fixedByte ''dir'' ''foo'' ''.txt'' None =
     Inr (''foo-1.txt'', [''dir/foo.txt'', ''dir/foo-1.txt'']) \<and>
   probeCount (getNonexistentFilename onlyFooTxt joinWithSlash fixedByte ''dir'' ''foo'' ''.txt'' None) \<le> 199 \<and>
   existsDir everythingExists ''dir'' \<and>
   probeCount (getNonexistentFilename everythingExists joinWithSlash fixedByte ''dir'' ''foo'' ''.txt'' (Some 2)) = 102 \<and>
   probeCount (getNonexistentFilename everythingExists joinWithSlash fixedByte ''dir'' ''foo'' ''.txt'' (Some (- 100))) = 1 \<and>
   filenameAt fixedByte ''foo'' ''.txt'' 99 1 = ''foo-1.txt'' \<and>
   filenameAt fixedByte ''foo'' ''.txt'' 99 99 = ''foo-0a1b2c3d.txt''"
proof -
  have h: "''foo'' \<noteq> [] \<and> existsDir onlyFooTxt ''dir''" by (simp add: onlyFooTxt_def)
  have v: "getNonexistentFilename onlyFooTxt joinWithSlash fixedByte ''dir'' ''foo'' ''.txt'' None =
     Inr (''foo-1.txt'', [''dir/foo.txt'', ''dir/foo-1.txt''])" by code_simp
  have d: "decimal 1 = ''1''" by code_simp
  have t: "toHex (randomBytes fixedByte 99 4) = ''0a1b2c3d''" by code_simp
  note T1 = getNonexistentFilename_probes
         [of onlyFooTxt joinWithSlash fixedByte "''dir''" "''foo''" "''.txt''" None 99 1]
  from T1 [THEN conjunct1] h
  have a: "\<not> isl (getNonexistentFilename onlyFooTxt joinWithSlash fixedByte ''dir'' ''foo'' ''.txt'' None)"
    by simp
  from T1 [THEN conjunct2, THEN conjunct2, THEN conjunct1] h
  have le: "probeCount (getNonexistentFilename onlyFooTxt joinWithSlash fixedByte ''dir'' ''foo'' ''.txt'' None)
               \<le> nat (max 0 (maxOrDefault None + 99)) + 1"
    by (rule mp)
  have i1: "0 < (1::nat) \<and> int 1 < 99" by simp
  from T1 [THEN conjunct2, THEN conjunct2, THEN conjunct2, THEN conjunct2, THEN conjunct2, THEN conjunct1] i1
  have b: "filenameAt fixedByte ''foo'' ''.txt'' 99 1 = ''foo'' @ ''-'' @ decimal 1 @ ''.txt''"
    by (rule mp)
  note T99 = getNonexistentFilename_probes
         [of onlyFooTxt joinWithSlash fixedByte "''dir''" "''foo''" "''.txt''" None 99 99]
  have i99: "0 < (99::nat) \<and> (99::int) \<le> int 99" by simp
  from T99 [THEN conjunct2, THEN conjunct2, THEN conjunct2, THEN conjunct2, THEN conjunct2,
            THEN conjunct2, THEN conjunct1] i99
  have c: "filenameAt fixedByte ''foo'' ''.txt'' 99 99 =
             ''foo'' @ ''-'' @ toHex (randomBytes fixedByte 99 4) @ ''.txt''"
    by (rule mp)
  have e: "''foo'' \<noteq> [] \<and> existsDir everythingExists ''dir''" by (simp add: everythingExists_def)
  have all: "''foo'' \<noteq> [] \<and> existsDir everythingExists ''dir'' \<and>
      (\<forall>j. exists everythingExists (joinWithSlash ''dir'' (filenameAt fixedByte ''foo'' ''.txt'' m j)))" for m
    by (simp add: everythingExists_def)
  note T2 = getNonexistentFilename_probes
         [of everythingExists joinWithSlash fixedByte "''dir''" "''foo''" "''.txt''" "Some 2" 0 0]
  from T2 [THEN conjunct2, THEN conjunct2, THEN conjunct2, THEN conjunct1] all [of "maxOrDefault (Some 2)"]
  have p2: "probeCount (getNonexistentFilename everythingExists joinWithSlash fixedByte ''dir'' ''foo'' ''.txt'' (Some 2)) =
      nat (max 0 (maxOrDefault (Some 2) + 99)) + 1" by (rule mp)
  note T3 = getNonexistentFilename_probes
         [of everythingExists joinWithSlash fixedByte "''dir''" "''foo''" "''.txt''" "Some (- 100)" 0 0]
  from T3 [THEN conjunct2, THEN conjunct2, THEN conjunct2, THEN conjunct1] all [of "maxOrDefault (Some (- 100))"]
  have p3: "probeCount (getNonexistentFilename everythingExists joinWithSlash fixedByte ''dir'' ''foo'' ''.txt'' (Some (- 100))) =
      nat (max 0 (maxOrDefault (Some (- 100)) + 99)) + 1" by (rule mp)
  have m1: "nat (max 0 (maxOrDefault None + 99)) + 1 = 199"
    and m2: "nat (max 0 (maxOrDefault (Some 2) + 99)) + 1 = 102"
    and m3: "nat (max 0 (maxOrDefault (Some (- 100)) + 99)) + 1 = 1"
    by (simp_all add: maxOrDefault_def)
  from le have le': "probeCount (getNonexistentFilename onlyFooTxt joinWithSlash fixedByte ''dir'' ''foo'' ''.txt'' None) \<le> 199"
    by (simp only: m1)
  from p2 have p2': "probeCount (getNonexistentFilename everythingExists joinWithSlash fixedByte ''dir'' ''foo'' ''.txt'' (Some 2)) = 102"
    by (simp only: m2)
  from p3 have p3': "probeCount (getNonexistentFilename everythingExists joinWithSlash fixedByte ''dir'' ''foo'' ''.txt'' (Some (- 100))) = 1"
    by (simp only: m3)
  from b d have b': "filenameAt fixedByte ''foo'' ''.txt'' 99 1 = ''foo-1.txt''" by simp
  from c t have c': "filenameAt fixedByte ''foo'' ''.txt'' 99 99 = ''foo-0a1b2c3d.txt''" by simp
  from e have e': "existsDir everythingExists ''dir''" by (rule conjunct2)
  from h have h1: "''foo'' \<noteq> []" and h2: "existsDir onlyFooTxt ''dir''" by simp_all
  show ?thesis
    apply (rule conjI [OF h1])
    apply (rule conjI [OF h2])
    apply (rule conjI [OF a])
    apply (rule conjI [OF v])
    apply (rule conjI [OF le'])
    apply (rule conjI [OF e'])
    apply (rule conjI [OF p2'])
    apply (rule conjI [OF p3'])
    apply (rule conjI [OF b'])
    apply (rule c')
    done
qed

text \<open>
  The claim of C3 as stated fails on the number of probes: when every name exists,
  the attempts \<open>0, ..., max + 99\<close> are all probed, which is \<open>max + 100\<close> probes and
  not \<open>max + 99\<close>: 199 for the default \<open>max\<close>, 101 for \<open>max = 1\<close>.
\<close>

theorem getNonexistentFilename_probe_count_counterexample:
  "probeCount (getNonexistentFilename everythingExists joinWithSlash fixedByte ''dir'' ''foo'' ''.txt'' None) = 199 \<and>
   probeCount (getNonexistentFilename everythingExists joinWithSlash fixedByte ''dir'' ''foo'' ''.txt'' (Some 1)) = 101"
proof -
  have e: "''foo'' \<noteq> [] \<and> existsDir everythingExists ''dir''" by (simp add: everythingExists_def)
  have all: "\<forall>j. exists everythingExists (joinWithSlash ''dir'' (filenameAt fixedByte ''foo'' ''.txt'' m j))" for m
    by (simp add: everythingExists_def)
  have 1: "probeCount (getNonexistentFilename everythingExists joinWithSlash fixedByte ''dir'' ''foo'' ''.txt'' None) =
      nat (max 0 (maxOrDefault None + 99)) + 1"
    using e all [of "maxOrDefault None"]
    by (rule probeCount_all_exist
          [of "''foo''" everythingExists "''dir''" joinWithSlash fixedByte "''.txt''" None])
  have 2: "probeCount (getNonexistentFilename everythingExists joinWithSlash fixedByte ''dir'' ''foo'' ''.txt'' (Some 1)) =
      nat (max 0 (maxOrDefault (Some 1) + 99)) + 1"
    using e all [of "maxOrDefault (Some 1)"]
    by (rule probeCount_all_exist
          [of "''foo''" everythingExists "''dir''" joinWithSlash fixedByte "''.txt''" "Some 1"])
  from 1 2 show ?thesis by (simp add: maxOrDefault_def)
qed

section \<open>isInDirectory\<close>

lemma popEmpty_ab: "popEmpty [''a'', ''b''] = [''a'', ''b'']"
  by (simp add: popEmpty.simps [of "[''a'', ''b'']"])

lemma isInDirectory_length_test_first:
  assumes "d \<noteq> []" "p \<noteq> []"
    and "length (split CHR ''/'' (ns d)) > length (split CHR ''/'' (ns p))"
  shows "\<not> isInDirectory ns ci lc d p"
  using assms by (simp add: isInDirectory_def Let_def)

text \<open>
  C2 at \<open>isInDirectory("a/b/", "a/b")\<close>, with a normalizer that only turns
  backslashes into slashes. The pieces of \<open>a/b/\<close> are \<open>a\<close>, \<open>b\<close> and an empty
  piece; they are counted before the empty piece is popped, three pieces against two,
  and the function returns false. Without the trailing slash it returns true, and so
  it does with the trailing slash when the other path has one piece more.
\<close>

theorem isInDirectory_trailing_slash:
  "\<not> isInDirectory slashNormalize caseInsensitive toLowerCase ''a/b/'' ''a/b'' \<and>
   isInDirectory slashNormalize caseInsensitive toLowerCase ''a/b'' ''a/b'' \<and>
   isInDirectory slashNormalize caseInsensitive toLowerCase ''a/b/'' ''a/b/c''"
proof -
  have 1: "split CHR ''/'' (slashNormalize ''a/b/'') = [''a'', ''b'', []]" by code_simp
  have 2: "split CHR ''/'' (slashNormalize ''a/b'') = [''a'', ''b'']" by code_simp
  have 3: "split CHR ''/'' (slashNormalize ''a/b/c'') = [''a'', ''b'', ''c'']" by code_simp
  have 4: "popEmpty [''a'', ''b'', []] = [''a'', ''b'']"
    by (simp add: popEmpty.simps [of "[''a'', ''b'', []]"] popEmpty_ab)
  have 5: "[0..<2] = [0, 1]" by (simp add: upt_rec)
  show ?thesis
    by (simp add: isInDirectory_def 1 2 3 4 5 popEmpty_ab Let_def)
qed

end
